theory Spec2Isabelle
  imports Main "HOL-Library.Sublist"
begin

section \<open>Strings\<close>

text \<open>
  A JavaScript string is a sequence of UTF-16 code units. The model writes it as a
  \<^typ>\<open>string\<close>, whose characters stand for the code units 0 to 255; every pattern the
  source matches is ASCII, and the only non-ASCII code unit below 256 that the source
  treats specially is the no-break space (white space for \<^verbatim>\<open>\s\<close> and \<^verbatim>\<open>trim\<close>).
\<close>

definition LF :: char where "LF = CHR 0x0A"
definition CR :: char where "CR = CHR 0x0D"
definition QUOTE :: char where "QUOTE = CHR 0x27"
definition DQUOTE :: char where "DQUOTE = CHR 0x22"
definition BACKSLASH :: char where "BACKSLASH = CHR 0x5C"

text \<open>
  \<^verbatim>\<open>value.replace(new RegExp(pat, 'g'), rep)\<close> for a pattern that is a literal text
  (every special character escaped, as \<^verbatim>\<open>toRegExp\<close> does) and a replacement without
  \<^verbatim>\<open>$\<close>: the matches are found from left to right, each search resuming after the
  previous match. An empty pattern matches before every code unit and at the end.
\<close>

function replace_g :: "string \<Rightarrow> string \<Rightarrow> string \<Rightarrow> string" where
  "replace_g pat rep [] = (if pat = [] then rep else [])"
| "replace_g pat rep (c # cs) =
     (if pat = [] then rep @ c # replace_g pat rep cs
      else if prefix pat (c # cs) then rep @ replace_g pat rep (drop (length pat) (c # cs))
      else c # replace_g pat rep cs)"
  by pat_completeness auto
termination
  by (relation "measure (\<lambda>(pat, rep, s). length s)") auto

section \<open>EscapeValue\<close>

text \<open>
  \<^verbatim>\<open>values.escape\<close> and \<^verbatim>\<open>values.unescape\<close>, in the order of the source.
\<close>

definition values_escape :: "string list" where
  "values_escape = [''||'', [CHR ''|'', QUOTE], ''|n'', ''|r'', ''|]'', ''|['']"

definition values_unescape :: "string list" where
  "values_unescape = [''|'', [QUOTE], [LF], [CR], '']'', ''['']"

text \<open>
  \<^verbatim>\<open>change(value, from, to)\<close> on a string: one global replacement after the other,
  \<^verbatim>\<open>from[x]\<close> by \<^verbatim>\<open>to[x]\<close>, each working on the result of the one before. (The two
  lists have the same length at every call of the source.)
\<close>

fun change :: "string \<Rightarrow> string list \<Rightarrow> string list \<Rightarrow> string" where
  "change v (f # fs) (t # ts) = change (replace_g f t v) fs ts"
| "change v _ _ = v"

definition escape :: "string \<Rightarrow> string" where
  "escape v = change v values_unescape values_escape"

definition unescape :: "string \<Rightarrow> string" where
  "unescape v = change v values_escape values_unescape"

definition escapeSingleQuote :: "string \<Rightarrow> string" where
  "escapeSingleQuote v = change v [[CHR ''|'', QUOTE]] [''%%%SINGLE_QUOTE%%%'']"

definition unescapeSingleQuote :: "string \<Rightarrow> string" where
  "unescapeSingleQuote v = change v [''%%%SINGLE_QUOTE%%%''] [[QUOTE]]"

section \<open>Decoded records\<close>

text \<open>
  The values a decoded record holds: \<^verbatim>\<open>undefined\<close>, a string, a number (the integers
  only: flow ids, durations, line numbers and counts), one \<^verbatim>\<open>{file, line}\<close> entry of a
  details list, and an array. A record is a JavaScript object with string keys: a map
  from the key to the value, where a key that is absent is not in the domain.
\<close>

datatype val = Undefined | Str string | Num int | Detail string int | Arr "val list"

type_synonym obj = "string \<rightharpoonup> val"

text \<open>Reading a property: an absent key reads as \<^verbatim>\<open>undefined\<close>.\<close>

definition field :: "obj \<Rightarrow> string \<Rightarrow> val" where
  "field r k = (case r k of None \<Rightarrow> Undefined | Some v \<Rightarrow> v)"

text \<open>The decimal text of an integer, as \<^verbatim>\<open>String(n)\<close> gives it.\<close>

definition digit_char :: "nat \<Rightarrow> char" where
  "digit_char d = ''0123456789'' ! d"

function show_nat :: "nat \<Rightarrow> string" where
  "show_nat n = (if n < 10 then [digit_char n] else show_nat (n div 10) @ [digit_char (n mod 10)])"
  by pat_completeness auto
termination
  by (relation "measure id") auto

declare show_nat.simps [simp del]

definition show_int :: "int \<Rightarrow> string" where
  "show_int i = (if i < 0 then CHR ''-'' # show_nat (nat (- i)) else show_nat (nat i))"

fun join :: "string \<Rightarrow> string list \<Rightarrow> string" where
  "join sep [] = []"
| "join sep [x] = x"
| "join sep (x # y # ys) = x @ sep @ join sep (y # ys)"

text \<open>
  \<^verbatim>\<open>ToString\<close>: what a template literal and \<^verbatim>\<open>+\<close> with a string make of a value, and
  what a value becomes as a property key. An array joins its elements with commas, an
  \<^verbatim>\<open>undefined\<close> element giving the empty text.
\<close>

fun tostr :: "val \<Rightarrow> string" where
  "tostr Undefined = ''undefined''"
| "tostr (Str s) = s"
| "tostr (Num n) = show_int n"
| "tostr (Detail f l) = ''[object Object]''"
| "tostr (Arr xs) = join '','' (map (\<lambda>x. if x = Undefined then [] else tostr x) xs)"

text \<open>The condition of an \<^verbatim>\<open>if\<close>: the empty string, zero and \<^verbatim>\<open>undefined\<close> are falsy.\<close>

fun truthy :: "val \<Rightarrow> bool" where
  "truthy Undefined = False"
| "truthy (Str s) = (s \<noteq> [])"
| "truthy (Num n) = (n \<noteq> 0)"
| "truthy (Detail f l) = True"
| "truthy (Arr xs) = True"

datatype error = TypeError

text \<open>
  The spread of a value into the arguments of a call: the elements of an array, the
  characters of a string; anything else is not iterable, a \<^verbatim>\<open>TypeError\<close>.
\<close>

fun spread :: "val \<Rightarrow> error + val list" where
  "spread (Arr xs) = Inr xs"
| "spread (Str s) = Inr (map (\<lambda>c. Str [c]) s)"
| "spread _ = Inl TypeError"

section \<open>ProblemMatcher\<close>

text \<open>
  \<^verbatim>\<open>collect\<close>, the \<^verbatim>\<open>Map\<close> from the generated id to the stored record. The model keeps
  records by value; the source shares the stored object with the record it returned from
  \<^verbatim>\<open>handleStarted\<close>.
\<close>

type_synonym store = "string \<rightharpoonup> obj"

text \<open>
  What one call gives back: a thrown error, or the value returned. \<^verbatim>\<open>parse\<close> returns
  a record or \<^verbatim>\<open>undefined\<close> on every path through its own handlers; the other values
  are what the members that \<^verbatim>\<open>lookup\<close> inherits return (see \<open>inherited\<close> below).
\<close>

datatype retval = RUndefined | RObj obj | RStr string | RBool bool | RThis

type_synonym outcome = "error + retval"

definition generateId :: "obj \<Rightarrow> string" where
  "generateId testResult = tostr (field testResult ''name'') @ ''-'' @ tostr (field testResult ''flowId'')"

definition isFault :: "obj \<Rightarrow> bool" where
  "isFault testResult =
     (field testResult ''event'' = Str ''testFailed'' \<or> field testResult ''event'' = Str ''testIgnored'')"

definition isTestResult :: "obj option \<Rightarrow> bool" where
  "isTestResult result =
     (case result of None \<Rightarrow> False
      | Some r \<Rightarrow> ''event'' \<in> dom r \<and> ''name'' \<in> dom r \<and> ''flowId'' \<in> dom r)"

definition handleStarted :: "store \<Rightarrow> obj \<Rightarrow> outcome \<times> store" where
  "handleStarted st testResult =
     (let id = generateId testResult;
          st' = st(id \<mapsto> testResult)
      in (Inr (case st' id of None \<Rightarrow> RUndefined | Some r \<Rightarrow> RObj r), st'))"

text \<open>
  \<^verbatim>\<open>handleFault\<close>. In the second branch \<^verbatim>\<open>prevData\<close> is the stored object itself, so
  the new message is in the store as soon as it is assigned, also when the \<^verbatim>\<open>push\<close> that
  follows throws: reading \<^verbatim>\<open>push\<close> of an absent \<^verbatim>\<open>details\<close> throws, calling it on a
  value that is not an array throws, and spreading a value that is not iterable throws.
\<close>

definition handleFault :: "store \<Rightarrow> obj \<Rightarrow> outcome \<times> store" where
  "handleFault st testResult =
     (let id = generateId testResult in
      case st id of
        None \<Rightarrow> (Inr RUndefined, st(id \<mapsto> testResult))
      | Some prevData \<Rightarrow>
          if field prevData ''kind'' = Str ''testStarted''
          then (Inr RUndefined, st(id \<mapsto> prevData ++ testResult))
          else
            let prevData1 =
                  (if truthy (field testResult ''message'')
                   then prevData(''message'' \<mapsto>
                          Str (tostr (field prevData ''message'') @ [LF, LF] @
                               tostr (field testResult ''message'')))
                   else prevData)
            in case (field prevData1 ''details'', spread (field testResult ''details'')) of
                 (Arr xs, Inr ys) \<Rightarrow>
                   (Inr RUndefined, st(id \<mapsto> prevData1(''details'' \<mapsto> Arr (xs @ ys))))
               | _ \<Rightarrow> (Inl TypeError, st(id \<mapsto> prevData1)))"

text \<open>
  \<^verbatim>\<open>handleFinished\<close>. \<^verbatim>\<open>this.collect.get(id)!\<close> is \<^verbatim>\<open>undefined\<close> for a key that is not
  stored, and \<^verbatim>\<open>isFault\<close> then reads \<^verbatim>\<open>event\<close> of \<^verbatim>\<open>undefined\<close>: a \<^verbatim>\<open>TypeError\<close>, before
  anything is deleted.
\<close>

definition handleFinished :: "store \<Rightarrow> obj \<Rightarrow> outcome \<times> store" where
  "handleFinished st testResult =
     (let id = generateId testResult in
      case st id of
        None \<Rightarrow> (Inl TypeError, st)
      | Some prevData \<Rightarrow>
          let event = (if isFault prevData then field prevData ''event'' else field testResult ''event'');
              kind = event;
              result = (prevData ++ testResult)(''event'' \<mapsto> event, ''kind'' \<mapsto> kind)
          in (Inr (RObj result), st(id := None)))"

datatype handler = HandleStarted | HandleFinished | HandleFault

text \<open>The own properties of \<^verbatim>\<open>lookup\<close>.\<close>

definition lookup :: "string \<Rightarrow> handler option" where
  "lookup key =
     (if key = ''testSuiteStarted'' then Some HandleStarted
      else if key = ''testStarted'' then Some HandleStarted
      else if key = ''testSuiteFinished'' then Some HandleFinished
      else if key = ''testFinished'' then Some HandleFinished
      else if key = ''testFailed'' then Some HandleFault
      else if key = ''testIgnored'' then Some HandleFault
      else None)"

text \<open>
  \<^verbatim>\<open>lookup\<close> is an object literal, so \<^verbatim>\<open>this.lookup[key]\<close> for a key that is not its own
  reads the member of that name of \<^verbatim>\<open>Object.prototype\<close>, and \<^verbatim>\<open>?.call(this, result)\<close>
  calls it, with the matcher as \<^verbatim>\<open>this\<close> and the record as its argument:
  \<^item> \<^verbatim>\<open>constructor\<close> is \<^verbatim>\<open>Object\<close>, which returns the object it is given;
  \<^item> \<^verbatim>\<open>toString\<close> and \<^verbatim>\<open>toLocaleString\<close> give the text of the matcher; \<^verbatim>\<open>valueOf\<close> the
    matcher;
  \<^item> \<^verbatim>\<open>isPrototypeOf\<close>, \<^verbatim>\<open>hasOwnProperty\<close> and \<^verbatim>\<open>propertyIsEnumerable\<close> give \<^verbatim>\<open>false\<close>,
    and \<^verbatim>\<open>__lookupGetter__\<close> and \<^verbatim>\<open>__lookupSetter__\<close> give \<^verbatim>\<open>undefined\<close>; all but the
    first turn the record into a property key before, which throws when the record has a
    key \<^verbatim>\<open>toString\<close> of its own (no value of a record is callable);
  \<^item> \<^verbatim>\<open>__defineGetter__\<close> and \<^verbatim>\<open>__defineSetter__\<close> throw, as no getter is passed;
  \<^item> \<^verbatim>\<open>__proto__\<close> is \<^verbatim>\<open>Object.prototype\<close> itself, which has no \<^verbatim>\<open>call\<close>: a \<^verbatim>\<open>TypeError\<close>;
  \<^item> every other key reads \<^verbatim>\<open>undefined\<close>, and \<^verbatim>\<open>?.\<close> gives \<^verbatim>\<open>undefined\<close>.
\<close>

definition object_prototype_names :: "string list" where
  "object_prototype_names =
     [''constructor'', ''toString'', ''toLocaleString'', ''valueOf'', ''isPrototypeOf'',
      ''hasOwnProperty'', ''propertyIsEnumerable'', ''__lookupGetter__'', ''__lookupSetter__'',
      ''__defineGetter__'', ''__defineSetter__'', ''__proto__'']"

definition inherited :: "string \<Rightarrow> obj \<Rightarrow> outcome" where
  "inherited key result =
     (if key = ''constructor'' then Inr (RObj result)
      else if key = ''toString'' \<or> key = ''toLocaleString'' then Inr (RStr ''[object Object]'')
      else if key = ''valueOf'' then Inr RThis
      else if key = ''isPrototypeOf'' then Inr (RBool False)
      else if key = ''hasOwnProperty'' \<or> key = ''propertyIsEnumerable''
        then (if ''toString'' \<in> dom result then Inl TypeError else Inr (RBool False))
      else if key = ''__lookupGetter__'' \<or> key = ''__lookupSetter__''
        then (if ''toString'' \<in> dom result then Inl TypeError else Inr RUndefined)
      else if key = ''__defineGetter__'' \<or> key = ''__defineSetter__'' \<or> key = ''__proto__''
        then Inl TypeError
      else Inr RUndefined)"

text \<open>\<^verbatim>\<open>this.lookup[result.event]?.call(this, result)\<close>.\<close>

definition call_lookup :: "store \<Rightarrow> obj \<Rightarrow> outcome \<times> store" where
  "call_lookup st result =
     (case lookup (tostr (field result ''event'')) of
        Some HandleStarted \<Rightarrow> handleStarted st result
      | Some HandleFinished \<Rightarrow> handleFinished st result
      | Some HandleFault \<Rightarrow> handleFault st result
      | None \<Rightarrow> (inherited (tostr (field result ''event'')) result, st))"

text \<open>
  \<^verbatim>\<open>parse\<close>. The parser is the constructor's argument: a function from the line to the
  record it decodes (\<open>None\<close> for \<^verbatim>\<open>undefined\<close>), or to the error it throws.
\<close>

definition parse :: "(string \<Rightarrow> error + obj option) \<Rightarrow> store \<Rightarrow> string \<Rightarrow> outcome \<times> store" where
  "parse parser st input =
     (case parser input of
        Inl e \<Rightarrow> (Inl e, st)
      | Inr None \<Rightarrow> (Inr RUndefined, st)
      | Inr (Some result) \<Rightarrow>
          if isTestResult (Some result) then call_lookup st result
          else (Inr (RObj result), st))"

text \<open>
  Feeding the lines of a run to \<^verbatim>\<open>parse\<close> one after the other, the caller going on
  after an error: the outcome of every line, and the store at the end.
\<close>

fun feed :: "(string \<Rightarrow> error + obj option) \<Rightarrow> store \<Rightarrow> string list \<Rightarrow> outcome list \<times> store" where
  "feed parser st [] = ([], st)"
| "feed parser st (l # ls) =
     (let (out, st') = parse parser st l;
          (outs, st'') = feed parser st' ls
      in (out # outs, st''))"

text \<open>Whether a value is an array, and whether it can be spread.\<close>

fun is_array :: "val \<Rightarrow> bool" where
  "is_array (Arr xs) = True"
| "is_array _ = False"

definition is_iterable :: "val \<Rightarrow> bool" where
  "is_iterable v = (case spread v of Inl e \<Rightarrow> False | Inr xs \<Rightarrow> True)"

text \<open>
  The key a line works on: the id of the record it is decoded to, when that record is a
  lifecycle record (it has \<^verbatim>\<open>event\<close>, \<^verbatim>\<open>name\<close> and \<^verbatim>\<open>flowId\<close>); and the handler that
  \<^verbatim>\<open>lookup\<close> has for its event.
\<close>

definition key_of :: "(string \<Rightarrow> error + obj option) \<Rightarrow> string \<Rightarrow> string option" where
  "key_of parser l =
     (case parser l of
        Inr (Some r) \<Rightarrow> if isTestResult (Some r) then Some (generateId r) else None
      | _ \<Rightarrow> None)"

definition handler_of :: "(string \<Rightarrow> error + obj option) \<Rightarrow> string \<Rightarrow> handler option" where
  "handler_of parser l =
     (case parser l of
        Inr (Some r) \<Rightarrow>
          if isTestResult (Some r) then lookup (tostr (field r ''event'')) else None
      | _ \<Rightarrow> None)"



text \<open>
  The key itself: the name and the flow id of the lifecycle record that a line is decoded
  to; and the id that \<^verbatim>\<open>generateId\<close> makes of a name and a flow id, under which the
  store keeps the record of the key.
\<close>

definition key_pair :: "(string \<Rightarrow> error + obj option) \<Rightarrow> string \<Rightarrow> (val \<times> val) option" where
  "key_pair parser l =
     (case parser l of
        Inr (Some r) \<Rightarrow>
          if isTestResult (Some r) then Some (field r ''name'', field r ''flowId'') else None
      | _ \<Rightarrow> None)"

definition key_id :: "val \<times> val \<Rightarrow> string" where
  "key_id K = generateId [''name'' \<mapsto> fst K, ''flowId'' \<mapsto> snd K]"

text \<open>
  Two kinds of lines. A line whose event is the name of a member that \<^verbatim>\<open>lookup\<close>
  inherits from \<^verbatim>\<open>Object.prototype\<close>; and a Failed or Ignored line whose key holds a
  record of kind \<^verbatim>\<open>testSuiteStarted\<close>, which the test \<^verbatim>\<open>prevData.kind === testStarted\<close> of
  \<^verbatim>\<open>handleFault\<close> does not take for the placeholder that it is.
\<close>

definition inherits_member :: "(string \<Rightarrow> error + obj option) \<Rightarrow> string \<Rightarrow> bool" where
  "inherits_member parser l =
     (case parser l of
        Inr (Some r) \<Rightarrow>
          isTestResult (Some r) \<and> tostr (field r ''event'') \<in> set object_prototype_names
      | _ \<Rightarrow> False)"

definition fault_on_suite :: "(string \<Rightarrow> error + obj option) \<Rightarrow> store \<Rightarrow> string \<Rightarrow> bool" where
  "fault_on_suite parser st l =
     (case parser l of
        Inr (Some r) \<Rightarrow>
          isTestResult (Some r) \<and> lookup (tostr (field r ''event'')) = Some HandleFault \<and>
          (case st (generateId r) of
             None \<Rightarrow> False
           | Some prevData \<Rightarrow> field prevData ''kind'' = Str ''testSuiteStarted'')
      | _ \<Rightarrow> False)"

section \<open>Example records\<close>

text \<open>
  The records of one test named \<^verbatim>\<open>t\<close> in flow 1, as the decoder makes them (\<^verbatim>\<open>kind\<close>
  equal to \<^verbatim>\<open>event\<close>), and a parser that decodes a few lines into them.
\<close>

definition started_t1 :: obj where
  "started_t1 = [''event'' \<mapsto> Str ''testStarted'', ''kind'' \<mapsto> Str ''testStarted'',
                 ''name'' \<mapsto> Str ''t'', ''flowId'' \<mapsto> Num 1]"

definition failed_t1 :: "string \<Rightarrow> val list \<Rightarrow> obj" where
  "failed_t1 m ds = [''event'' \<mapsto> Str ''testFailed'', ''kind'' \<mapsto> Str ''testFailed'',
                     ''name'' \<mapsto> Str ''t'', ''flowId'' \<mapsto> Num 1,
                     ''message'' \<mapsto> Str m, ''details'' \<mapsto> Arr ds]"

definition failed_nodetails_t1 :: obj where
  "failed_nodetails_t1 = [''event'' \<mapsto> Str ''testFailed'', ''kind'' \<mapsto> Str ''testFailed'',
                          ''name'' \<mapsto> Str ''t'', ''flowId'' \<mapsto> Num 1,
                          ''message'' \<mapsto> Str ''boom'']"

definition finished_t1 :: obj where
  "finished_t1 = [''event'' \<mapsto> Str ''testFinished'', ''kind'' \<mapsto> Str ''testFinished'',
                  ''name'' \<mapsto> Str ''t'', ''flowId'' \<mapsto> Num 1, ''duration'' \<mapsto> Num 12]"

definition constructor_t1 :: obj where
  "constructor_t1 = [''event'' \<mapsto> Str ''constructor'', ''kind'' \<mapsto> Str ''constructor'',
                     ''name'' \<mapsto> Str ''t'', ''flowId'' \<mapsto> Num 1]"

definition started_t2 :: obj where
  "started_t2 = [''event'' \<mapsto> Str ''testStarted'', ''kind'' \<mapsto> Str ''testStarted'',
                 ''name'' \<mapsto> Str ''t'', ''flowId'' \<mapsto> Num 2]"

definition finished_t2 :: obj where
  "finished_t2 = [''event'' \<mapsto> Str ''testFinished'', ''kind'' \<mapsto> Str ''testFinished'',
                  ''name'' \<mapsto> Str ''t'', ''flowId'' \<mapsto> Num 2, ''duration'' \<mapsto> Num 7]"

text \<open>
  A suite of the same name and flow id; a test \<^verbatim>\<open>t\<close> in flow -3 and a test \<^verbatim>\<open>t-\<close> in
  flow 3, which have the id \<^verbatim>\<open>t--3\<close> both; and a line on which the parser throws.
\<close>

definition suite_started_t1 :: obj where
  "suite_started_t1 = [''event'' \<mapsto> Str ''testSuiteStarted'', ''kind'' \<mapsto> Str ''testSuiteStarted'',
                       ''name'' \<mapsto> Str ''t'', ''flowId'' \<mapsto> Num 1]"

definition started_minus :: obj where
  "started_minus = [''event'' \<mapsto> Str ''testStarted'', ''kind'' \<mapsto> Str ''testStarted'',
                    ''name'' \<mapsto> Str ''t'', ''flowId'' \<mapsto> Num (- 3)]"

definition finished_dash :: obj where
  "finished_dash = [''event'' \<mapsto> Str ''testFinished'', ''kind'' \<mapsto> Str ''testFinished'',
                    ''name'' \<mapsto> Str ''t-'', ''flowId'' \<mapsto> Num 3]"

definition example_parser :: "string \<Rightarrow> error + obj option" where
  "example_parser l =
     (if l = ''started'' then Inr (Some started_t1)
      else if l = ''failed boom'' then Inr (Some (failed_t1 ''boom'' []))
      else if l = ''failed A'' then Inr (Some (failed_t1 ''A'' [Detail ''a.php'' 1]))
      else if l = ''failed B'' then Inr (Some (failed_t1 ''B'' [Detail ''b.php'' 2]))
      else if l = ''failed nodetails'' then Inr (Some failed_nodetails_t1)
      else if l = ''finished'' then Inr (Some finished_t1)
      else if l = ''failed empty'' then Inr (Some (failed_t1 [] [Detail ''b.php'' 2]))
      else if l = ''constructor'' then Inr (Some constructor_t1)
      else if l = ''started 2'' then Inr (Some started_t2)
      else if l = ''finished 2'' then Inr (Some finished_t2)
      else if l = ''suite started'' then Inr (Some suite_started_t1)
      else if l = ''started t -3'' then Inr (Some started_minus)
      else if l = ''finished t- 3'' then Inr (Some finished_dash)
      else if l = ''broken'' then Inl TypeError
      else Inr None)"

section \<open>Character classes\<close>

text \<open>
  The classes of the regular expressions of the source, on the code units 0 to 255:
  \<^verbatim>\<open>\s\<close> (which is also what \<^verbatim>\<open>trim\<close> removes), the line terminators that \<^verbatim>\<open>.\<close> does
  not match, \<^verbatim>\<open>\d\<close> and \<^verbatim>\<open>\w\<close>.
\<close>

definition is_space :: "char \<Rightarrow> bool" where
  "is_space c = (c \<in> set [CHR 0x09, CHR 0x0A, CHR 0x0B, CHR 0x0C, CHR 0x0D, CHR 0x20, CHR 0xA0])"

definition is_line_terminator :: "char \<Rightarrow> bool" where
  "is_line_terminator c = (c = LF \<or> c = CR)"

definition is_digit :: "char \<Rightarrow> bool" where
  "is_digit c = (c \<in> set ''0123456789'')"

definition is_word :: "char \<Rightarrow> bool" where
  "is_word c = (is_digit c \<or> c \<in> set ''abcdefghijklmnopqrstuvwxyz'' \<or>
     c \<in> set ''ABCDEFGHIJKLMNOPQRSTUVWXYZ'' \<or> c = CHR ''_'')"

definition trim :: "string \<Rightarrow> string" where
  "trim s = rev (dropWhile is_space (rev (dropWhile is_space s)))"

text \<open>
  \<^verbatim>\<open>parseInt(digits, 10)\<close> on a non-empty text of decimal digits, which is all that the
  source passes to it. The source gets a double: the integer that is written as long as
  that is \<open>2 ^ 53\<close> at most, and the double next to it above (for \<^verbatim>\<open>9007199254740993\<close>
  the number 9007199254740992). The numbers of the model are integers, so the model
  follows the source up to \<open>2 ^ 53\<close> only: \<open>parseInt\<close> is \<open>None\<close> where the number
  written is larger, and what is computed from such a number is \<open>None\<close> too. \<open>None\<close> is
  not a value of the source: it says that the model does not cover the input.
\<close>

definition digit_val :: "char \<Rightarrow> nat" where
  "digit_val c = length (takeWhile (\<lambda>d. d \<noteq> c) ''0123456789'')"

definition decimal :: "string \<Rightarrow> int" where
  "decimal ds = foldl (\<lambda>n c. 10 * n + int (digit_val c)) 0 ds"

definition parseInt :: "string \<Rightarrow> int option" where
  "parseInt ds =
     (if ds \<noteq> [] \<and> list_all is_digit ds \<and> decimal ds \<le> 2 ^ 53 then Some (decimal ds)
      else None)"

text \<open>
  \<^verbatim>\<open>value.replace(pat, rep)\<close> with a string as pattern: the first occurrence only.
\<close>

fun replace_first :: "string \<Rightarrow> string \<Rightarrow> string \<Rightarrow> string" where
  "replace_first pat rep [] = (if pat = [] then rep else [])"
| "replace_first pat rep (c # cs) =
     (if prefix pat (c # cs) then rep @ drop (length pat) (c # cs)
      else c # replace_first pat rep cs)"

section \<open>Parser\<close>

text \<open>\<^verbatim>\<open>split(/\r\n|\n/g)\<close>: the lines of a text; the first argument is the line read so far.\<close>

fun split_lines :: "string \<Rightarrow> string \<Rightarrow> string list" where
  "split_lines cur [] = [cur]"
| "split_lines cur (c # cs) =
     (if c = LF then cur # split_lines [] cs
      else if c = CR \<and> cs \<noteq> [] \<and> hd cs = LF then cur # split_lines [] (tl cs)
      else split_lines (cur @ [c]) cs)"

text \<open>
  \<^verbatim>\<open>filePattern\<close>, the expression \<^verbatim>\<open>(s+)?(?<file>.+):(?<line>\d+)$\<close>, on one line. The
  line must end in a colon and digits, so the colon is the last one of the line. The
  match starts as far left as \<^verbatim>\<open>.\<close> allows, that is after the last line terminator
  before the colon (a lone carriage return can be left in a line), and needs one character
  at least for \<^verbatim>\<open>file\<close>. The optional group is greedy: it takes the letters \<^verbatim>\<open>s\<close> at the
  start of the match, all of them unless that leaves nothing for \<^verbatim>\<open>file\<close>, then all but
  one. The result is the groups \<^verbatim>\<open>file\<close> and \<^verbatim>\<open>line\<close>.
\<close>

definition last_colon :: "string \<Rightarrow> (string \<times> string) option" where
  "last_colon l =
     (case dropWhile (\<lambda>c. c \<noteq> CHR '':'') (rev l) of
        [] \<Rightarrow> None
      | colon # front \<Rightarrow> Some (rev front, rev (takeWhile (\<lambda>c. c \<noteq> CHR '':'') (rev l))))"

definition filePattern :: "string \<Rightarrow> (string \<times> string) option" where
  "filePattern l =
     (case last_colon l of
        None \<Rightarrow> None
      | Some (front, digits) \<Rightarrow>
          if digits = [] \<or> \<not> list_all is_digit digits then None
          else
            let run = rev (takeWhile (\<lambda>c. \<not> is_line_terminator c) (rev front))
            in if run = [] then None
               else
                 let k = length (takeWhile (\<lambda>c. c = CHR ''s'') run);
                     k' = (if k = length run then k - 1 else k)
                 in Some (drop k' run, digits))"

text \<open>
  \<^verbatim>\<open>parseFileAndLine\<close>: on a string, the \<^verbatim>\<open>{file, line}\<close> entries of the lines that match,
  in the order of the lines; on any other value \<^verbatim>\<open>text.trim\<close> throws. The result is
  \<open>None\<close> when one of the line numbers is above \<open>2 ^ 53\<close> (see \<open>parseInt\<close>).
\<close>

definition parseFileAndLine_string :: "string \<Rightarrow> (string \<times> int) list option" where
  "parseFileAndLine_string text =
     those (map (\<lambda>(file, line).
                   map_option (Pair (trim (dropWhile (\<lambda>c. c = CHR ''-'') file))) (parseInt line))
              (List.map_filter filePattern (split_lines [] (trim text))))"

fun parseFileAndLine :: "val \<Rightarrow> (error + (string \<times> int) list) option" where
  "parseFileAndLine (Str text) = map_option Inr (parseFileAndLine_string text)"
| "parseFileAndLine _ = Some (Inl TypeError)"

definition entries :: "(string \<times> int) list \<Rightarrow> val list" where
  "entries ds = map (\<lambda>(file, line). Detail file line) ds"

text \<open>
  \<^verbatim>\<open>parseDetails\<close>: nothing without a \<^verbatim>\<open>details\<close> key; else the message without the
  first occurrence of each \<^verbatim>\<open>file:line\<close> found in it, trimmed, and the entries of the
  message followed by those of the \<^verbatim>\<open>details\<close> text. Again \<open>None\<close> when a line number
  is above \<open>2 ^ 53\<close>.
\<close>

definition parseDetails :: "obj \<Rightarrow> (error + obj) option" where
  "parseDetails argv =
     (if ''details'' \<notin> dom argv then Some (Inr Map.empty)
      else
        case parseFileAndLine (field argv ''message'') of
          None \<Rightarrow> None
        | Some (Inl e) \<Rightarrow> Some (Inl e)
        | Some (Inr details) \<Rightarrow>
            let message = fold (\<lambda>(file, line) message.
                                  replace_first (file @ '':'' @ show_int line) [] message)
                            details (tostr (field argv ''message''))
            in case parseFileAndLine (field argv ''details'') of
                 None \<Rightarrow> None
               | Some (Inl e) \<Rightarrow> Some (Inl e)
               | Some (Inr more) \<Rightarrow>
                   Some (Inr [''message'' \<mapsto> Str (trim message),
                              ''details'' \<mapsto> Arr (entries details @ entries more)]))"

text \<open>\<^verbatim>\<open>split('::')\<close>; the first argument is the part read so far.\<close>

fun split_colons :: "string \<Rightarrow> string \<Rightarrow> string list" where
  "split_colons cur [] = [cur]"
| "split_colons cur [c] = [cur @ [c]]"
| "split_colons cur (c # d # cs) =
     (if c = CHR '':'' \<and> d = CHR '':'' then cur # split_colons [] cs
      else split_colons (cur @ [c]) (d # cs))"

text \<open>\<^verbatim>\<open>replace(/^php_qn:\/\//, '')\<close>.\<close>

definition strip_scheme :: "string \<Rightarrow> string" where
  "strip_scheme s = (if prefix ''php_qn://'' s then drop (length ''php_qn://'') s else s)"

text \<open>
  The expression \<^verbatim>\<open>/\swith\sdata\sset\s[#"].+$/\<close>. Its head, up to the \<^verbatim>\<open>#\<close> or the
  quote, is matched piece by piece, each piece giving the text that follows it. The whole
  matches at a position when the head does and the text after the head, up to the end of
  the string, is not empty and has no line terminator. \<^verbatim>\<open>replace\<close> removes the leftmost
  match, which always runs to the end of the string.
\<close>

definition drop_space :: "string \<Rightarrow> string option" where
  "drop_space s = (case s of [] \<Rightarrow> None | c # cs \<Rightarrow> if is_space c then Some cs else None)"

definition drop_text :: "string \<Rightarrow> string \<Rightarrow> string option" where
  "drop_text t s = (if prefix t s then Some (drop (length t) s) else None)"

definition drop_marker :: "string \<Rightarrow> string option" where
  "drop_marker s =
     (case s of [] \<Rightarrow> None | c # cs \<Rightarrow> if c = CHR ''#'' \<or> c = DQUOTE then Some cs else None)"

definition dataset_head :: "string \<Rightarrow> string option" where
  "dataset_head s =
     Option.bind (drop_space s) (\<lambda>s.
     Option.bind (drop_text ''with'' s) (\<lambda>s.
     Option.bind (drop_space s) (\<lambda>s.
     Option.bind (drop_text ''data'' s) (\<lambda>s.
     Option.bind (drop_space s) (\<lambda>s.
     Option.bind (drop_text ''set'' s) (\<lambda>s.
     Option.bind (drop_space s) drop_marker))))))"

definition dataset_match :: "string \<Rightarrow> bool" where
  "dataset_match s =
     (case dataset_head s of
        None \<Rightarrow> False
      | Some rest \<Rightarrow> rest \<noteq> [] \<and> list_all (\<lambda>c. \<not> is_line_terminator c) rest)"

fun strip_dataset :: "string \<Rightarrow> string" where
  "strip_dataset [] = []"
| "strip_dataset (c # cs) = (if dataset_match (c # cs) then [] else c # strip_dataset cs)"

text \<open>The position of the first head of a data-set suffix in a text.\<close>

fun first_marker :: "string \<Rightarrow> nat option" where
  "first_marker [] = None"
| "first_marker (c # cs) =
     (if dataset_head (c # cs) \<noteq> None then Some 0 else map_option Suc (first_marker cs))"

text \<open>
  \<^verbatim>\<open>parseLocationHint\<close>: nothing for a falsy \<^verbatim>\<open>locationHint\<close>; a truthy value that is not
  a string has no \<^verbatim>\<open>replace\<close>, a \<^verbatim>\<open>TypeError\<close>.
\<close>

definition parseLocationHint :: "obj \<Rightarrow> error + obj" where
  "parseLocationHint argv =
     (if \<not> truthy (field argv ''locationHint'') then Inr Map.empty
      else
        case field argv ''locationHint'' of
          Str locationHint \<Rightarrow>
            (case split_colons [] (replace_g ('':''@ '':'' @ [BACKSLASH]) ''::'' (strip_scheme locationHint)) of
               file # rest \<Rightarrow>
                 let id = join ''::'' rest;
                     testId = strip_dataset id
                 in Inr [''id'' \<mapsto> Str id, ''file'' \<mapsto> Str file, ''testId'' \<mapsto> Str testId]
             | [] \<Rightarrow> Inr [''id'' \<mapsto> Str [], ''file'' \<mapsto> Undefined, ''testId'' \<mapsto> Str []])
        | _ \<Rightarrow> Inl TypeError)"

section \<open>TestResultSummaryParser\<close>

text \<open>
  \<^verbatim>\<open>normalize\<close>. The names it is given are runs of \<^verbatim>\<open>\w\<close>, so \<^verbatim>\<open>toLowerCase\<close> only has
  the letters A to Z to change.
\<close>

definition to_lower :: "char \<Rightarrow> char" where
  "to_lower c =
     (case List.find (\<lambda>(u, l). u = c) (zip ''ABCDEFGHIJKLMNOPQRSTUVWXYZ'' ''abcdefghijklmnopqrstuvwxyz'') of
        None \<Rightarrow> c | Some (u, l) \<Rightarrow> l)"

definition normalize_name :: "string \<Rightarrow> string" where
  "normalize_name name =
     (let name = map to_lower name in
      if name \<in> set [''skipped'', ''incomplete'', ''risky''] then name
      else name @ (if name \<noteq> [] \<and> last name = CHR ''s'' then [] else ''s''))"

text \<open>
  One match of the expression of \<^verbatim>\<open>parse\<close>,
  \<^verbatim>\<open>((?<name>\w+):\s(?<count>\d+)|(?<count2>\d+)\s(?<name2>\w+))[.s,]?\<close> with the flags
  \<^verbatim>\<open>ig\<close>, at the start of a text: the name, the count and the text after the match. Each
  run is followed by a character outside its class, so a greedy run is the longest one.
  The first alternative is tried first; the optional last character is taken when it is
  there (the flag \<^verbatim>\<open>i\<close> makes \<^verbatim>\<open>s\<close> match \<^verbatim>\<open>S\<close> too).
\<close>

definition name_count :: "string \<Rightarrow> ((string \<times> string) \<times> string) option" where
  "name_count s =
     (let name = takeWhile is_word s in
      case dropWhile is_word s of
        colon # space # rest \<Rightarrow>
          if name \<noteq> [] \<and> colon = CHR '':'' \<and> is_space space \<and> takeWhile is_digit rest \<noteq> []
          then Some ((name, takeWhile is_digit rest), dropWhile is_digit rest)
          else None
      | _ \<Rightarrow> None)"

definition count_name :: "string \<Rightarrow> ((string \<times> string) \<times> string) option" where
  "count_name s =
     (let count = takeWhile is_digit s in
      case dropWhile is_digit s of
        space # rest \<Rightarrow>
          if count \<noteq> [] \<and> is_space space \<and> takeWhile is_word rest \<noteq> []
          then Some ((takeWhile is_word rest, count), dropWhile is_word rest)
          else None
      | _ \<Rightarrow> None)"

definition optional_end :: "string \<Rightarrow> string" where
  "optional_end s =
     (case s of
        [] \<Rightarrow> []
      | c # cs \<Rightarrow> if c = CHR ''.'' \<or> c = CHR ''s'' \<or> c = CHR ''S'' \<or> c = CHR '','' then cs else s)"

definition summary_match :: "string \<Rightarrow> ((string \<times> string) \<times> string) option" where
  "summary_match s =
     (case name_count s of
        Some (m, rest) \<Rightarrow> Some (m, optional_end rest)
      | None \<Rightarrow>
          (case count_name s of
             Some (m, rest) \<Rightarrow> Some (m, optional_end rest)
           | None \<Rightarrow> None))"

text \<open>
  \<^verbatim>\<open>text.matchAll(pattern)\<close>: the matches from left to right, each search starting where
  the match before ended.
\<close>

function matchAll :: "string \<Rightarrow> (string \<times> string) list" where
  "matchAll [] = []"
| "matchAll (c # cs) =
     (case summary_match (c # cs) of
        Some (m, rest) \<Rightarrow> m # matchAll rest
      | None \<Rightarrow> matchAll cs)"
  by pat_completeness auto
termination
proof (relation "measure length", simp_all, goal_cases)
  case (1 c cs x2 m rest)
  define s where "s = c # cs"
  have o: "\<And>r. length (optional_end r) \<le> length r"
    by (simp add: optional_end_def split: list.splits)
  from 1 have "summary_match s = Some (m, rest)"
    by (simp add: s_def)
  then consider r where "name_count s = Some (m, r)" "rest = optional_end r"
    | r where "count_name s = Some (m, r)" "rest = optional_end r"
    by (auto simp add: summary_match_def split: option.splits)
  then have "length rest < length s"
  proof cases
    case 1
    then obtain x y z where "dropWhile is_word s = x # y # z" "r = dropWhile is_digit z"
      by (auto simp add: name_count_def Let_def split: list.splits if_splits)
    then have "length r \<le> length z" "length z < length s"
      using length_dropWhile_le [of is_digit z] length_dropWhile_le [of is_word s] by simp_all
    with 1 o [of r] show ?thesis by simp
  next
    case 2
    then obtain x z where "dropWhile is_digit s = x # z" "r = dropWhile is_word z"
      by (auto simp add: count_name_def Let_def split: list.splits if_splits)
    then have "length r \<le> length z" "length z < length s"
      using length_dropWhile_le [of is_word z] length_dropWhile_le [of is_digit s] by simp_all
    with 2 o [of r] show ?thesis by simp
  qed
  then show ?case by (simp add: s_def)
qed

declare matchAll.simps [simp del]

text \<open>
  \<^verbatim>\<open>TestResultSummaryParser.parse\<close>: the record with \<^verbatim>\<open>kind\<close> and \<^verbatim>\<open>text\<close>, to which each
  match adds its field, from left to right. The result is \<open>None\<close> when one of the counts
  is above \<open>2 ^ 53\<close> (see \<open>parseInt\<close>).
\<close>

definition summary_parse :: "string \<Rightarrow> obj option" where
  "summary_parse text =
     fold (\<lambda>(name, count) result.
             case (result, parseInt count) of
               (Some r, Some n) \<Rightarrow> Some (r(normalize_name name \<mapsto> Num n))
             | _ \<Rightarrow> None)
       (matchAll text)
       (Some [''kind'' \<mapsto> Str ''testResultSummary'', ''text'' \<mapsto> Str text])"

text \<open>
  A count field written in a text. The name is a non-empty run of \<^verbatim>\<open>\w\<close> and the count
  a non-empty run of digits, and somewhere in the text there is either the name, a colon,
  one white space and the count, with no digit after the count, or the count, one white
  space and the name, with no \<^verbatim>\<open>\w\<close> after the name. \<open>written_at\<close> is for a field at
  the start of the text.
\<close>

definition starts_with :: "(char \<Rightarrow> bool) \<Rightarrow> string \<Rightarrow> bool" where
  "starts_with P s = (case s of [] \<Rightarrow> False | c # cs \<Rightarrow> P c)"

definition written_at :: "string \<Rightarrow> string \<Rightarrow> string \<Rightarrow> bool" where
  "written_at s name count =
     (name \<noteq> [] \<and> list_all is_word name \<and> count \<noteq> [] \<and> list_all is_digit count \<and>
      ((case drop_text name s of
          Some (colon # sp # rest) \<Rightarrow>
            colon = CHR '':'' \<and> is_space sp \<and> prefix count rest \<and>
            \<not> starts_with is_digit (drop (length count) rest)
        | _ \<Rightarrow> False) \<or>
       (case drop_text count s of
          Some (sp # rest) \<Rightarrow>
            is_space sp \<and> prefix name rest \<and> \<not> starts_with is_word (drop (length name) rest)
        | _ \<Rightarrow> False)))"

fun written_in :: "string \<Rightarrow> string \<Rightarrow> string \<Rightarrow> bool" where
  "written_in [] name count = False"
| "written_in (c # cs) name count = (written_at (c # cs) name count \<or> written_in cs name count)"

text \<open>Example records of the tokenizer, for the parser's functions.\<close>

definition hint_argv :: "string \<Rightarrow> obj" where
  "hint_argv h = [''event'' \<mapsto> Str ''testStarted'', ''name'' \<mapsto> Str ''t'', ''flowId'' \<mapsto> Num 1,
                  ''locationHint'' \<mapsto> Str h]"

definition failed_argv :: obj where
  "failed_argv = [''event'' \<mapsto> Str ''testFailed'', ''name'' \<mapsto> Str ''t'', ''flowId'' \<mapsto> Num 1,
       ''message'' \<mapsto> Str (''A'' @ [LF] @ ''/a.php:1''), ''details'' \<mapsto> Str ('' /b.php:2'' @ [LF])]"

section \<open>Theorems\<close>

subsection \<open>EscapeValue\<close>

text \<open>
  C1. The claim is that \<^verbatim>\<open>unescape(escape(s))\<close> is \<^verbatim>\<open>s\<close> for every string free of the
  placeholder token. The code does not do that for a pipe followed by the letter n:
  \<^verbatim>\<open>escape\<close> gives \<^verbatim>\<open>||n\<close>, and \<^verbatim>\<open>unescape\<close> first turns \<^verbatim>\<open>||\<close> into \<^verbatim>\<open>|\<close> and then
  reads the \<^verbatim>\<open>|n\<close> it has just made as an escaped line feed.
\<close>

theorem escape_unescape_pipe_n:
  "escape ''|n'' = ''||n'' \<and> unescape (escape ''|n'') = [LF] \<and> unescape (escape ''|n'') \<noteq> ''|n''"
  by (simp add: escape_def unescape_def values_escape_def values_unescape_def
      LF_def CR_def QUOTE_def)

subsection \<open>ProblemMatcher: the records of one key\<close>

lemma show_int_1: "show_int 1 = ''1''"
  by (simp add: show_int_def show_nat.simps digit_char_def)

lemma generateId_flow_1:
  "r ''name'' = Some (Str n) \<Longrightarrow> r ''flowId'' = Some (Num 1) \<Longrightarrow> generateId r = n @ ''-1''"
  by (simp add: generateId_def field_def show_int_1)

lemmas pm_defs = parse_def isTestResult_def call_lookup_def lookup_def handleStarted_def
  handleFault_def handleFinished_def field_def isFault_def map_add_def dom_def Let_def

lemma merge_seq:
  assumes "p l1 = Inr (Some S)" "p l2 = Inr (Some F)" "p l3 = Inr (Some E)"
  and S: "S ''event'' = Some (Str ''testStarted'')" "S ''kind'' = Some (Str ''testStarted'')" "S ''name'' = Some (Str ''t'')" "S ''flowId'' = Some (Num 1)"
  and F: "F ''event'' = Some (Str ''testFailed'')" "F ''name'' = Some (Str ''t'')" "F ''flowId'' = Some (Num 1)" "F ''message'' = Some (Str ''boom'')"
  and E: "E ''event'' = Some (Str ''testFinished'')" "E ''name'' = Some (Str ''t'')" "E ''flowId'' = Some (Num 1)" "E ''duration'' = Some (Num 12)" "E ''message'' = None"
 shows "\<exists>T st'. feed p st [l1,l2,l3] = ([Inr (RObj S), Inr RUndefined, Inr (RObj T)], st') \<and> field T ''event'' = Str ''testFailed'' \<and> field T ''kind'' = Str ''testFailed'' \<and> field T ''message'' = Str ''boom'' \<and> field T ''duration'' = Num 12 \<and> st' ''t-1'' = None"
  using assms
  by (simp add: pm_defs generateId_flow_1)

lemma finished_sticky:
  assumes "p l = Inr (Some E)" "isTestResult (Some E)"
    "lookup (tostr (field E ''event'')) = Some HandleFinished"
    "st (generateId E) = Some prev" "isFault prev"
  shows "\<exists>T. parse p st l = (Inr (RObj T), st(generateId E := None)) \<and>
     field T ''event'' = field prev ''event'' \<and> field T ''kind'' = field prev ''event'' \<and>
     field T ''event'' \<noteq> field E ''event''"
  using assms
  apply (simp add: parse_def call_lookup_def handleFinished_def Let_def)
  apply (auto simp add: field_def isFault_def lookup_def split: if_splits option.splits)
  done

text \<open>
  C2. For the key of name \<^verbatim>\<open>t\<close> and flow 1: a line decoded as Started, then one decoded
  as Failed with the message \<^verbatim>\<open>boom\<close>, then one decoded as Finished with duration 12 and
  no message of its own. The Started line gives back the started record, the Failed line
  \<^verbatim>\<open>undefined\<close>, and the Finished line the one terminal record: its event and kind are
  \<^verbatim>\<open>testFailed\<close>, its message is \<^verbatim>\<open>boom\<close>, its duration is 12, and the key is no longer
  stored. In general, when the record stored for the key of a Finished or SuiteFinished
  record is a fault record, the terminal record has the event of the stored record as
  event and kind, not the event of the incoming record.
\<close>

theorem correlation_merge:
  "(\<forall>p st l1 l2 l3 S F E.
      p l1 = Inr (Some S) \<and> p l2 = Inr (Some F) \<and> p l3 = Inr (Some E) \<and>
      S ''event'' = Some (Str ''testStarted'') \<and> S ''kind'' = Some (Str ''testStarted'') \<and>
      S ''name'' = Some (Str ''t'') \<and> S ''flowId'' = Some (Num 1) \<and>
      F ''event'' = Some (Str ''testFailed'') \<and> F ''name'' = Some (Str ''t'') \<and>
      F ''flowId'' = Some (Num 1) \<and> F ''message'' = Some (Str ''boom'') \<and>
      E ''event'' = Some (Str ''testFinished'') \<and> E ''name'' = Some (Str ''t'') \<and>
      E ''flowId'' = Some (Num 1) \<and> E ''duration'' = Some (Num 12) \<and> E ''message'' = None
      \<longrightarrow> (\<exists>T st'. feed p st [l1, l2, l3] = ([Inr (RObj S), Inr RUndefined, Inr (RObj T)], st') \<and>
             field T ''event'' = Str ''testFailed'' \<and> field T ''kind'' = Str ''testFailed'' \<and>
             field T ''message'' = Str ''boom'' \<and> field T ''duration'' = Num 12 \<and>
             st' ''t-1'' = None)) \<and>
   (\<forall>p st l E prev.
      p l = Inr (Some E) \<and> isTestResult (Some E) \<and>
      lookup (tostr (field E ''event'')) = Some HandleFinished \<and>
      st (generateId E) = Some prev \<and> isFault prev
      \<longrightarrow> (\<exists>T. parse p st l = (Inr (RObj T), st(generateId E := None)) \<and>
             field T ''event'' = field prev ''event'' \<and> field T ''kind'' = field prev ''event'' \<and>
             field T ''event'' \<noteq> field E ''event''))"
proof (intro conjI allI impI, goal_cases)
  case (1 p st l1 l2 l3 S F E)
  then show ?case using merge_seq [of p l1 S l2 F l3 E st] by blast
next
  case (2 p st l E prev)
  then show ?case using finished_sticky [of p l E st prev] by blast
qed

lemma generateId_finished_t1: "generateId finished_t1 = ''t-1''"
  by (simp add: generateId_def field_def finished_t1_def show_int_1)

theorem correlation_merge_witness:
  "(\<exists>T st'. feed example_parser Map.empty [''started'', ''failed boom'', ''finished''] =
        ([Inr (RObj started_t1), Inr RUndefined, Inr (RObj T)], st') \<and>
      field T ''event'' = Str ''testFailed'' \<and> field T ''kind'' = Str ''testFailed'' \<and>
      field T ''message'' = Str ''boom'' \<and> field T ''duration'' = Num 12 \<and>
      st' ''t-1'' = None) \<and>
   (\<exists>T. parse example_parser [''t-1'' \<mapsto> failed_t1 ''boom'' []] ''finished'' =
        (Inr (RObj T), Map.empty) \<and>
      field T ''event'' = Str ''testFailed'' \<and> field T ''kind'' = Str ''testFailed'')"
proof -
  have "example_parser ''started'' = Inr (Some started_t1) \<and>
      example_parser ''failed boom'' = Inr (Some (failed_t1 ''boom'' [])) \<and>
      example_parser ''finished'' = Inr (Some finished_t1)"
    by (simp add: example_parser_def)
  then have "\<exists>T st'. feed example_parser Map.empty [''started'', ''failed boom'', ''finished''] =
        ([Inr (RObj started_t1), Inr RUndefined, Inr (RObj T)], st') \<and>
      field T ''event'' = Str ''testFailed'' \<and> field T ''kind'' = Str ''testFailed'' \<and>
      field T ''message'' = Str ''boom'' \<and> field T ''duration'' = Num 12 \<and>
      st' ''t-1'' = None"
    using correlation_merge [THEN conjunct1, rule_format,
        of example_parser "''started''" started_t1 "''failed boom''" "failed_t1 ''boom'' []"
          "''finished''" finished_t1 Map.empty]
    by (simp add: started_t1_def failed_t1_def finished_t1_def)
  moreover
  have "example_parser ''finished'' = Inr (Some finished_t1) \<and> isTestResult (Some finished_t1) \<and>
      lookup (tostr (field finished_t1 ''event'')) = Some HandleFinished \<and>
      [''t-1'' \<mapsto> failed_t1 ''boom'' []] (generateId finished_t1) = Some (failed_t1 ''boom'' []) \<and>
      isFault (failed_t1 ''boom'' [])"
    by (simp add: example_parser_def finished_t1_def failed_t1_def isTestResult_def lookup_def
        field_def generateId_def show_int_1 isFault_def)
  then have "\<exists>T. parse example_parser [''t-1'' \<mapsto> failed_t1 ''boom'' []] ''finished'' =
        (Inr (RObj T), Map.empty) \<and>
      field T ''event'' = Str ''testFailed'' \<and> field T ''kind'' = Str ''testFailed''"
    using correlation_merge [THEN conjunct2, rule_format,
        of example_parser "''finished''" finished_t1 "[''t-1'' \<mapsto> failed_t1 ''boom'' []]"
          "failed_t1 ''boom'' []"]
    by (simp add: failed_t1_def field_def generateId_finished_t1) blast
  ultimately show ?thesis by blast
qed

subsection \<open>ProblemMatcher: thrown errors\<close>

lemma parse_test_result:
  "p l = Inr (Some r) \<Longrightarrow> isTestResult (Some r) \<Longrightarrow> parse p st l = call_lookup st r"
  by (simp add: parse_def)

lemma handleStarted_returns: "\<exists>T. fst (handleStarted st r) = Inr (RObj T)"
  by (simp add: handleStarted_def Let_def)

lemma handleFinished_throws:
  "fst (handleFinished st r) = Inl TypeError \<longleftrightarrow> st (generateId r) = None"
  by (simp add: handleFinished_def Let_def split: option.splits)

lemma handleFinished_outcome:
  "fst (handleFinished st r) = Inl TypeError \<or> (\<exists>T. fst (handleFinished st r) = Inr (RObj T))"
  by (simp add: handleFinished_def Let_def split: option.splits)

lemma is_array_iff: "is_array v \<longleftrightarrow> (\<exists>xs. v = Arr xs)"
  by (cases v) auto

lemma handleFault_throws:
  "fst (handleFault st r) = Inl TypeError \<longleftrightarrow>
     (\<exists>prev. st (generateId r) = Some prev \<and> field prev ''kind'' \<noteq> Str ''testStarted'' \<and>
        \<not> (is_array (field prev ''details'') \<and> is_iterable (field r ''details'')))"
  by (auto simp add: handleFault_def Let_def is_iterable_def field_def is_array_iff
      split: option.splits val.splits sum.splits if_splits)

lemma handleFault_outcome:
  "fst (handleFault st r) = Inl TypeError \<or> fst (handleFault st r) = Inr RUndefined"
  by (auto simp add: handleFault_def Let_def split: option.splits val.splits sum.splits)

text \<open>
  C3, as amended. For every line, \<^verbatim>\<open>parse\<close> returns a record or \<^verbatim>\<open>undefined\<close> or
  throws, and it throws in exactly these cases: the parser throws (the error goes through,
  the store as it was); the line is decoded as a Finished or SuiteFinished record whose
  key is not stored; the line is decoded as a Failed or Ignored record whose key holds a
  record of a kind other than \<^verbatim>\<open>testStarted\<close>, and the stored \<^verbatim>\<open>details\<close> is not an
  array or the incoming \<^verbatim>\<open>details\<close> cannot be spread (it is absent). Two kinds of lines
  are left out: a line whose event is the name of a member of \<^verbatim>\<open>Object.prototype\<close>, and
  a Failed or Ignored line whose key holds a \<^verbatim>\<open>testSuiteStarted\<close> record.
\<close>

theorem parse_throws_exactly:
  assumes "\<not> inherits_member p l" and "\<not> fault_on_suite p st l"
  shows "((\<exists>e. fst (parse p st l) = Inl e) \<longleftrightarrow>
            (\<exists>e. p l = Inl e) \<or>
            (\<exists>r. p l = Inr (Some r) \<and> isTestResult (Some r) \<and>
               (lookup (tostr (field r ''event'')) = Some HandleFinished \<and> st (generateId r) = None \<or>
                lookup (tostr (field r ''event'')) = Some HandleFault \<and>
                (\<exists>prev. st (generateId r) = Some prev \<and>
                   field prev ''kind'' \<noteq> Str ''testStarted'' \<and>
                   \<not> (is_array (field prev ''details'') \<and> is_iterable (field r ''details'')))))) \<and>
         (fst (parse p st l) = Inl TypeError \<or> fst (parse p st l) = Inr RUndefined \<or>
            (\<exists>T. fst (parse p st l) = Inr (RObj T))) \<and>
         (\<forall>e. p l = Inl e \<longrightarrow> parse p st l = (Inl e, st))"
proof (cases "p l")
  case (Inl e)
  then show ?thesis by (cases e) (simp add: parse_def)
next
  case (Inr res)
  show ?thesis
  proof (cases res)
    case None
    with Inr show ?thesis by (simp add: parse_def)
  next
    case (Some r)
    show ?thesis
    proof (cases "isTestResult (Some r)")
      case False
      with Inr Some show ?thesis by (simp add: parse_def)
    next
      case True
      with Inr Some have c: "parse p st l = call_lookup st r"
        by (simp add: parse_test_result)
      show ?thesis
      proof (cases "lookup (tostr (field r ''event''))")
        case None
        moreover have "tostr (field r ''event'') \<notin> set object_prototype_names"
          using assms(1) Inr Some True by (simp add: inherits_member_def)
        ultimately have "parse p st l = (Inr RUndefined, st)"
          using c by (simp add: call_lookup_def inherited_def object_prototype_names_def)
        with Inr Some None show ?thesis by simp
      next
        case h: (Some h)
        show ?thesis
        proof (cases h)
          case HandleStarted
          with h c Inr Some True handleStarted_returns [of st r] show ?thesis
            by (auto simp add: call_lookup_def)
        next
          case HandleFinished
          with h c Inr Some True handleFinished_throws [of st r] handleFinished_outcome [of st r]
          show ?thesis
            by (auto simp add: call_lookup_def)
        next
          case HandleFault
          with h c Inr Some True handleFault_throws [of st r] handleFault_outcome [of st r]
          show ?thesis
            by (cases "fst (handleFault st r)") (auto simp add: call_lookup_def)
        qed
      qed
    qed
  qed
qed

text \<open>
  C3 as stated fails: on an empty store the Finished line throws, so does the second of
  two Failed lines that carry no \<^verbatim>\<open>details\<close>, and so does a line on which the parser
  throws.
\<close>

theorem finished_without_started_throws:
  "parse example_parser Map.empty ''finished'' = (Inl TypeError, Map.empty) \<and>
   fst (feed example_parser Map.empty [''failed nodetails'', ''failed nodetails'']) =
     [Inr RUndefined, Inl TypeError] \<and>
   parse example_parser Map.empty ''broken'' = (Inl TypeError, Map.empty)"
  by (simp add: example_parser_def pm_defs finished_t1_def failed_nodetails_t1_def
      generateId_def show_int_1)

theorem parse_throws_exactly_witness:
  "fst (parse example_parser Map.empty ''Time: 1 ms'') \<noteq> Inl TypeError \<and>
   fst (parse example_parser Map.empty ''finished'') = Inl TypeError \<and>
   fst (parse example_parser [''t-1'' \<mapsto> started_t1] ''finished'') \<noteq> Inl TypeError \<and>
   fst (parse example_parser [''t-1'' \<mapsto> failed_nodetails_t1] ''failed boom'') = Inl TypeError \<and>
   fst (parse example_parser [''t-1'' \<mapsto> failed_t1 ''A'' []] ''failed boom'') \<noteq> Inl TypeError \<and>
   parse example_parser [''t-1'' \<mapsto> started_t1] ''broken'' = (Inl TypeError, [''t-1'' \<mapsto> started_t1])"
proof -
  have a: "example_parser ''Time: 1 ms'' = Inr None" "example_parser ''broken'' = Inl TypeError"
    by (simp_all add: example_parser_def)
  have b: "example_parser ''finished'' = Inr (Some finished_t1)" "isTestResult (Some finished_t1)"
      "lookup (tostr (field finished_t1 ''event'')) = Some HandleFinished"
      "tostr (field finished_t1 ''event'') \<notin> set object_prototype_names"
    by (simp_all add: example_parser_def finished_t1_def isTestResult_def lookup_def field_def
        object_prototype_names_def)
  let ?F = "failed_t1 ''boom'' []"
  have c: "example_parser ''failed boom'' = Inr (Some ?F)" "isTestResult (Some ?F)"
      "lookup (tostr (field ?F ''event'')) = Some HandleFault"
      "tostr (field ?F ''event'') \<notin> set object_prototype_names"
      "is_iterable (field ?F ''details'')"
    by (simp_all add: example_parser_def failed_t1_def isTestResult_def lookup_def field_def
        object_prototype_names_def is_iterable_def)
  have g: "generateId ?F = ''t-1''"
    by (simp add: generateId_def field_def failed_t1_def show_int_1)
  have k: "field failed_nodetails_t1 ''kind'' = Str ''testFailed''"
      "field failed_nodetails_t1 ''details'' = Undefined"
      "field (failed_t1 ''A'' []) ''kind'' = Str ''testFailed''"
      "field (failed_t1 ''A'' []) ''details'' = Arr []"
      "field started_t1 ''kind'' = Str ''testStarted''"
    by (simp_all add: field_def failed_nodetails_t1_def failed_t1_def started_t1_def)
  have e: "(\<exists>e. x = Inl e) \<longleftrightarrow> x = Inl TypeError" for x :: outcome
    by (metis error.exhaust)
  have 1: "fst (parse example_parser Map.empty ''Time: 1 ms'') \<noteq> Inl TypeError"
    using parse_throws_exactly [of example_parser "''Time: 1 ms''" Map.empty] a
    by (simp add: inherits_member_def fault_on_suite_def e)
  have 2: "fst (parse example_parser Map.empty ''finished'') = Inl TypeError"
    using parse_throws_exactly [of example_parser "''finished''" Map.empty] b
    by (simp add: inherits_member_def fault_on_suite_def generateId_finished_t1 e)
  have 3: "fst (parse example_parser [''t-1'' \<mapsto> started_t1] ''finished'') \<noteq> Inl TypeError"
    using parse_throws_exactly [of example_parser "''finished''" "[''t-1'' \<mapsto> started_t1]"] b
    by (simp add: inherits_member_def fault_on_suite_def generateId_finished_t1 e)
  have 4: "fst (parse example_parser [''t-1'' \<mapsto> failed_nodetails_t1] ''failed boom'') = Inl TypeError"
    using parse_throws_exactly [of example_parser "''failed boom''" "[''t-1'' \<mapsto> failed_nodetails_t1]"] c g k
    by (simp add: inherits_member_def fault_on_suite_def e)
  have 5: "fst (parse example_parser [''t-1'' \<mapsto> failed_t1 ''A'' []] ''failed boom'') \<noteq> Inl TypeError"
    using parse_throws_exactly [of example_parser "''failed boom''" "[''t-1'' \<mapsto> failed_t1 ''A'' []]"] c g k
    by (simp add: inherits_member_def fault_on_suite_def e)
  have 6: "parse example_parser [''t-1'' \<mapsto> started_t1] ''broken'' = (Inl TypeError, [''t-1'' \<mapsto> started_t1])"
    using parse_throws_exactly [of example_parser "''broken''" "[''t-1'' \<mapsto> started_t1]"] a
    by (simp add: inherits_member_def fault_on_suite_def)
  from 1 2 3 4 5 6 show ?thesis by blast
qed

subsection \<open>ProblemMatcher: a further fault without message\<close>

text \<open>
  C9. The store holds a fault record for the key (its event is \<^verbatim>\<open>testFailed\<close> or
  \<^verbatim>\<open>testIgnored\<close>, and its kind is its event), and a further Failed or Ignored record
  for the key arrives whose message is absent or the empty string. Then the record stored
  afterwards has the message it had (nothing is appended, no separator either), and when
  both \<^verbatim>\<open>details\<close> are arrays the call returns \<^verbatim>\<open>undefined\<close> and the only change to the
  stored record is that the incoming entries are appended to its details.
\<close>

theorem fault_empty_message:
  assumes "p l = Inr (Some r)" "isTestResult (Some r)"
    "lookup (tostr (field r ''event'')) = Some HandleFault"
    "st (generateId r) = Some prev" "isFault prev" "field prev ''kind'' = field prev ''event''"
    "r ''message'' = None \<or> r ''message'' = Some (Str [])"
  shows "\<exists>prev'. snd (parse p st l) = st(generateId r \<mapsto> prev') \<and>
      prev' ''message'' = prev ''message'' \<and>
      (\<forall>xs ys. field prev ''details'' = Arr xs \<and> field r ''details'' = Arr ys \<longrightarrow>
         fst (parse p st l) = Inr RUndefined \<and> prev' = prev(''details'' \<mapsto> Arr (xs @ ys)))"
proof -
  have k: "field prev ''kind'' \<noteq> Str ''testStarted''"
    using assms(5,6) by (auto simp add: isFault_def)
  have m: "\<not> truthy (field r ''message'')"
    using assms(7) by (auto simp add: field_def)
  have "parse p st l = handleFault st r"
    using assms(1,2,3) by (simp add: parse_def call_lookup_def)
  then show ?thesis
    using k m assms(4)
    by (auto simp add: handleFault_def Let_def field_def split: val.splits sum.splits option.splits)
qed

theorem fault_empty_message_witness:
  "\<exists>prev'. parse example_parser [''t-1'' \<mapsto> failed_t1 ''boom'' [Detail ''a.php'' 1]] ''failed empty'' =
      (Inr RUndefined, [''t-1'' \<mapsto> prev']) \<and>
     prev' ''message'' = Some (Str ''boom'') \<and>
     prev' ''details'' = Some (Arr [Detail ''a.php'' 1, Detail ''b.php'' 2])"
proof -
  let ?prev = "failed_t1 ''boom'' [Detail ''a.php'' 1]"
  let ?r = "failed_t1 [] [Detail ''b.php'' 2]"
  have g: "generateId ?r = ''t-1''"
    by (simp add: generateId_def field_def failed_t1_def show_int_1)
  have h: "example_parser ''failed empty'' = Inr (Some ?r) \<and> isTestResult (Some ?r) \<and>
      lookup (tostr (field ?r ''event'')) = Some HandleFault \<and>
      isFault ?prev \<and>
      field ?prev ''kind'' = field ?prev ''event'' \<and>
      (?r ''message'' = None \<or> ?r ''message'' = Some (Str [])) \<and>
      field ?prev ''details'' = Arr [Detail ''a.php'' 1] \<and>
      field ?r ''details'' = Arr [Detail ''b.php'' 2]"
    by (simp add: example_parser_def failed_t1_def isTestResult_def lookup_def field_def
        isFault_def)
  have s: "[''t-1'' \<mapsto> ?prev] (generateId ?r) = Some ?prev"
    by (simp add: g)
  obtain prev' where
    "snd (parse example_parser [''t-1'' \<mapsto> ?prev] ''failed empty'') =
       [''t-1'' \<mapsto> ?prev](generateId ?r \<mapsto> prev')"
    "prev' ''message'' = ?prev ''message''"
    "fst (parse example_parser [''t-1'' \<mapsto> ?prev] ''failed empty'') = Inr RUndefined"
    "prev' = ?prev(''details'' \<mapsto> Arr ([Detail ''a.php'' 1] @ [Detail ''b.php'' 2]))"
    using h s fault_empty_message [of example_parser "''failed empty''" ?r "[''t-1'' \<mapsto> ?prev]" ?prev]
    by blast
  then show ?thesis
    by (intro exI [of _ prev']) (simp add: failed_t1_def prod_eq_iff generateId_flow_1)
qed

subsection \<open>ProblemMatcher: events without a handler\<close>

text \<open>
  C10. The claim is that a record with \<^verbatim>\<open>event\<close>, \<^verbatim>\<open>name\<close> and \<^verbatim>\<open>flowId\<close> whose event is
  none of the six lifecycle events makes \<^verbatim>\<open>parse\<close> return \<^verbatim>\<open>undefined\<close>. For the event
  \<^verbatim>\<open>constructor\<close> the code returns the record itself: \<^verbatim>\<open>this.lookup['constructor']\<close> is
  the inherited \<^verbatim>\<open>Object\<close> function, which \<^verbatim>\<open>?.call\<close> then calls on the record.
\<close>

theorem unknown_event_constructor:
  "isTestResult (Some constructor_t1) \<and> lookup (tostr (field constructor_t1 ''event'')) = None \<and>
   parse example_parser Map.empty ''constructor'' = (Inr (RObj constructor_t1), Map.empty)"
  by (simp add: example_parser_def constructor_t1_def isTestResult_def lookup_def field_def
      parse_def call_lookup_def inherited_def)

text \<open>
  An event that is neither one of the six handlers' nor the name of a member of
  \<^verbatim>\<open>Object.prototype\<close> gives \<^verbatim>\<open>undefined\<close> and leaves the store as it is.
\<close>

lemma unknown_event_undefined:
  assumes "p l = Inr (Some r)" "isTestResult (Some r)"
    "lookup (tostr (field r ''event'')) = None"
    "tostr (field r ''event'') \<notin> set object_prototype_names"
  shows "parse p st l = (Inr RUndefined, st)"
  using assms
  by (simp add: parse_def call_lookup_def inherited_def object_prototype_names_def)

subsection \<open>ProblemMatcher: the store, and keys that do not meet\<close>

lemma handleStarted_local:
  "handleStarted st r =
     (fst (handleStarted (Map.empty(generateId r := st (generateId r))) r),
      st(generateId r := snd (handleStarted (Map.empty(generateId r := st (generateId r))) r) (generateId r)))"
  by (simp add: handleStarted_def Let_def)

lemma handleFault_local:
  "handleFault st r =
     (fst (handleFault (Map.empty(generateId r := st (generateId r))) r),
      st(generateId r := snd (handleFault (Map.empty(generateId r := st (generateId r))) r) (generateId r)))"
  by (auto simp add: handleFault_def Let_def split: option.splits val.splits sum.splits)

lemma handleFinished_local:
  "handleFinished st r =
     (fst (handleFinished (Map.empty(generateId r := st (generateId r))) r),
      st(generateId r := snd (handleFinished (Map.empty(generateId r := st (generateId r))) r) (generateId r)))"
  by (auto simp add: handleFinished_def Let_def split: option.splits)

lemma call_lookup_local:
  "call_lookup st r =
     (fst (call_lookup (Map.empty(generateId r := st (generateId r))) r),
      st(generateId r := snd (call_lookup (Map.empty(generateId r := st (generateId r))) r) (generateId r)))"
proof (cases "lookup (tostr (field r ''event''))")
  case None
  then show ?thesis by (simp add: call_lookup_def)
next
  case (Some h)
  then show ?thesis
    using handleStarted_local [of st r] handleFault_local [of st r] handleFinished_local [of st r]
    by (cases h) (simp_all add: call_lookup_def)
qed

lemma parse_nokey:
  "key_of p l = None \<Longrightarrow> parse p st l = (fst (parse p Map.empty l), st)"
  by (auto simp add: key_of_def parse_def isTestResult_def split: sum.splits option.splits if_splits)

lemma parse_local:
  assumes "key_of p l = Some k"
  shows "parse p st l = (fst (parse p (Map.empty(k := st k)) l),
                     st(k := snd (parse p (Map.empty(k := st k)) l) k))"
proof -
  obtain r where r: "p l = Inr (Some r)" "isTestResult (Some r)" "k = generateId r"
    using assms by (auto simp add: key_of_def split: sum.splits option.splits if_splits)
  then have "\<And>st. parse p st l = call_lookup st r"
    by (simp add: parse_def)
  then show ?thesis
    using call_lookup_local [of st r] r(3) by simp
qed

lemma parse_other_key:
  "key_of p l \<noteq> Some k \<Longrightarrow> snd (parse p st l) k = st k"
proof (cases "key_of p l")
  case None
  then show ?thesis using parse_nokey [of p l st] by simp
next
  case (Some k')
  assume "key_of p l \<noteq> Some k"
  with Some have "k' \<noteq> k" by simp
  then show ?thesis using parse_local [OF Some, of st] by simp
qed


lemma feed_Cons:
  "feed p st (l # ls) = (fst (parse p st l) # fst (feed p (snd (parse p st l)) ls),
                         snd (feed p (snd (parse p st l)) ls))"
  by (simp add: split_def Let_def)

lemma length_feed: "length (fst (feed p st ls)) = length ls"
  by (induction ls arbitrary: st) (simp_all add: split_def Let_def)





lemma show_int_2: "show_int 2 = ''2''"
  by (simp add: show_int_def show_nat.simps digit_char_def)



lemma key_handler_record:
  assumes "key_of p l = Some k" "handler_of p l = Some h"
  shows "\<exists>r. p l = Inr (Some r) \<and> isTestResult (Some r) \<and> k = generateId r \<and>
     lookup (tostr (field r ''event'')) = Some h"
  using assms
  by (auto simp add: key_of_def handler_of_def split: sum.splits option.splits if_splits)

lemma parse_by_handler:
  assumes "key_of p l = Some k" "handler_of p l = Some h"
  shows "\<exists>r. k = generateId r \<and>
     parse p st l = (case h of HandleStarted \<Rightarrow> handleStarted st r
                     | HandleFinished \<Rightarrow> handleFinished st r
                     | HandleFault \<Rightarrow> handleFault st r)"
proof -
  obtain r where r: "p l = Inr (Some r)" "isTestResult (Some r)" "k = generateId r"
    "lookup (tostr (field r ''event'')) = Some h"
    using key_handler_record [OF assms] by blast
  then have "parse p st l = call_lookup st r"
    by (simp add: parse_test_result)
  with r show ?thesis
    by (auto simp add: call_lookup_def)
qed

lemma parse_finished_store:
  assumes "key_of p l = Some k" "handler_of p l = Some HandleFinished"
  shows "snd (parse p st l) = st(k := None)"
proof -
  obtain r where "k = generateId r" "parse p st l = handleFinished st r"
    using parse_by_handler [OF assms, of st] by auto
  then show ?thesis
    by (auto simp add: handleFinished_def Let_def split: option.splits)
qed


lemma handleFault_stores: "\<exists>e. snd (handleFault st r) = st(generateId r \<mapsto> e)"
proof (cases "st (generateId r)")
  case None
  then show ?thesis by (auto simp add: handleFault_def)
next
  case (Some prevData)
  show ?thesis
  proof (cases "field prevData ''kind'' = Str ''testStarted''")
    case True
    with Some show ?thesis by (auto simp add: handleFault_def)
  next
    case False
    with Some show ?thesis
      by (cases "truthy (field r ''message'')")
        (auto simp add: handleFault_def Let_def split: val.splits sum.splits)
  qed
qed

lemma parse_started_fault_dom:
  assumes "key_of p l = Some k"
    "handler_of p l = Some HandleStarted \<or> handler_of p l = Some HandleFault"
  shows "dom (snd (parse p st l)) = insert k (dom st)"
proof -
  from assms(2) show ?thesis
  proof
    assume h: "handler_of p l = Some HandleStarted"
    obtain r where "k = generateId r" "parse p st l = handleStarted st r"
      using parse_by_handler [OF assms(1) h, of st] by auto
    then show ?thesis by (simp add: handleStarted_def Let_def)
  next
    assume h: "handler_of p l = Some HandleFault"
    obtain r where "k = generateId r" "parse p st l = handleFault st r"
      using parse_by_handler [OF assms(1) h, of st] by auto
    moreover obtain e where "snd (handleFault st r) = st(generateId r \<mapsto> e)"
      using handleFault_stores by blast
    ultimately show ?thesis by simp
  qed
qed

lemma parse_no_handler_store:
  assumes "handler_of p l = None"
  shows "snd (parse p st l) = st"
  using assms
  by (auto simp add: handler_of_def parse_def call_lookup_def isTestResult_def
      split: sum.splits option.splits if_splits)

lemma handler_has_key: "handler_of p l = Some h \<Longrightarrow> \<exists>k. key_of p l = Some k"
  by (auto simp add: handler_of_def key_of_def split: sum.splits option.splits if_splits)

lemma parse_keeps_entry:
  assumes "k \<in> dom st" "k \<notin> dom (snd (parse p st l))"
  shows "key_of p l = Some k \<and> handler_of p l = Some HandleFinished"
proof (cases "handler_of p l")
  case None
  then show ?thesis using parse_no_handler_store [of p l st] assms by simp
next
  case (Some h)
  then obtain k' where k': "key_of p l = Some k'" using handler_has_key by blast
  show ?thesis
  proof (cases h)
    case HandleFinished
    then have "snd (parse p st l) = st(k' := None)"
      using parse_finished_store [OF k'] Some by simp
    then show ?thesis using assms k' Some HandleFinished by (auto split: if_splits)
  next
    case HandleStarted
    then have "dom (snd (parse p st l)) = insert k' (dom st)"
      using parse_started_fault_dom [OF k'] Some by simp
    then show ?thesis using assms by auto
  next
    case HandleFault
    then have "dom (snd (parse p st l)) = insert k' (dom st)"
      using parse_started_fault_dom [OF k'] Some by simp
    then show ?thesis using assms by auto
  qed
qed

lemma feed_keeps_entry:
  "k \<in> dom st \<Longrightarrow> k \<notin> dom (snd (feed p st ls)) \<Longrightarrow>
     \<exists>l\<in>set ls. key_of p l = Some k \<and> handler_of p l = Some HandleFinished"
proof (induction ls arbitrary: st)
  case Nil
  then show ?case by simp
next
  case (Cons l ls)
  show ?case
  proof (cases "k \<in> dom (snd (parse p st l))")
    case True
    from Cons.IH [OF True] Cons.prems(2) show ?thesis
      by (simp add: feed_Cons del: feed.simps)
  next
    case False
    with Cons.prems(1) parse_keeps_entry [of k st p l] show ?thesis by simp
  qed
qed

lemma digit_val_digit_char: "d < 10 \<Longrightarrow> digit_val (digit_char d) = d"
proof -
  assume "d < 10"
  then have "d \<in> {0, 1, 2, 3, 4, 5, 6, 7, 8, 9}" by auto
  then show ?thesis
    by (elim insertE emptyE) (simp_all add: digit_val_def digit_char_def)
qed

lemma digit_char_is_digit: "d < 10 \<Longrightarrow> is_digit (digit_char d)"
proof -
  assume "d < 10"
  then have "d \<in> {0, 1, 2, 3, 4, 5, 6, 7, 8, 9}" by auto
  then show ?thesis
    by (elim insertE emptyE) (simp_all add: is_digit_def digit_char_def)
qed

lemma show_nat_digits: "list_all is_digit (show_nat n)"
proof (induction n rule: show_nat.induct)
  case (1 n)
  show ?case
  proof (cases "n < 10")
    case True
    then show ?thesis by (simp add: show_nat.simps [of n] digit_char_is_digit)
  next
    case False
    then show ?thesis
      using 1 by (simp add: show_nat.simps [of n] digit_char_is_digit)
  qed
qed

lemma decimal_show_nat: "decimal (show_nat n) = int n"
proof (induction n rule: show_nat.induct)
  case (1 n)
  show ?case
  proof (cases "n < 10")
    case True
    then show ?thesis by (simp add: show_nat.simps [of n] decimal_def digit_val_digit_char)
  next
    case False
    then have "decimal (show_nat (n div 10)) = int (n div 10)" using 1 by simp
    moreover have "int (10 * (n div 10) + n mod 10) = int n" by simp
    then have "10 * int (n div 10) + int (n mod 10) = int n"
      by (simp only: of_nat_add of_nat_mult of_nat_numeral)
    ultimately show ?thesis
      using False by (simp add: show_nat.simps [of n] decimal_def digit_val_digit_char)
  qed
qed

lemma show_nat_inject:
  assumes "show_nat a = show_nat b"
  shows "a = b"
proof -
  have "int a = decimal (show_nat a)" by (rule decimal_show_nat [symmetric])
  also have "\<dots> = decimal (show_nat b)" by (simp only: assms)
  also have "\<dots> = int b" by (rule decimal_show_nat)
  finally show ?thesis by simp
qed

lemma split_at_last:
  "x \<notin> set d1 \<Longrightarrow> x \<notin> set d2 \<Longrightarrow> n1 @ x # d1 = n2 @ x # d2 \<Longrightarrow> n1 = n2 \<and> d1 = d2"
proof (induction n1 arbitrary: n2)
  case Nil
  then show ?case by (cases n2) auto
next
  case (Cons a n1)
  show ?case
  proof (cases n2)
    case Nil
    with Cons.prems show ?thesis by auto
  next
    case (Cons b n2')
    with Cons.prems Cons.IH [of n2'] show ?thesis by simp
  qed
qed

text \<open>
  For names that are strings and flow ids that are integers from 0 on, the id is the
  key: two keys have the same id exactly when they have the same name and flow id.
\<close>

lemma key_id_inject:
  assumes "0 \<le> f1" "0 \<le> f2"
  shows "key_id (Str n1, Num f1) = key_id (Str n2, Num f2) \<longleftrightarrow> n1 = n2 \<and> f1 = f2"
proof
  assume "key_id (Str n1, Num f1) = key_id (Str n2, Num f2)"
  then have e: "n1 @ CHR ''-'' # show_nat (nat f1) = n2 @ CHR ''-'' # show_nat (nat f2)"
    using assms by (simp add: key_id_def generateId_def field_def show_int_def)
  have nd: "CHR ''-'' \<notin> set (show_nat n)" for n
  proof
    assume "CHR ''-'' \<in> set (show_nat n)"
    then have "is_digit (CHR ''-'')"
      using show_nat_digits [of n] by (simp only: list_all_iff)
    then show False by (simp add: is_digit_def)
  qed
  have "n1 = n2 \<and> show_nat (nat f1) = show_nat (nat f2)"
    by (rule split_at_last [OF nd nd e])
  then have "n1 = n2" "nat f1 = nat f2"
    using show_nat_inject [of "nat f1" "nat f2"] by simp_all
  then show "n1 = n2 \<and> f1 = f2"
    using assms by simp
next
  assume "n1 = n2 \<and> f1 = f2"
  then show "key_id (Str n1, Num f1) = key_id (Str n2, Num f2)" by simp
qed

lemma key_of_pair: "key_of p l = map_option key_id (key_pair p l)"
  by (simp add: key_of_def key_pair_def key_id_def generateId_def field_def
      split: sum.splits option.splits)

text \<open>
  C5, as amended. The store is a map from the id that \<^verbatim>\<open>generateId\<close> makes of name and
  flow id to one record, so it never holds more than one record for a key. A line decoded
  as Finished or SuiteFinished for a key leaves the store without the entry of that key;
  a line decoded as Started, SuiteStarted, Failed or Ignored leaves every entry in and
  the entry of its own key present; every other line leaves the store as it is; and a
  line for a key with another id leaves the entry of the key as it is. Over any run of
  lines in which no line is for another key with the same id, an entry of a key that was
  stored at the start and is not at the end was removed by a Finished or SuiteFinished
  line for that very key. Keys whose names are strings and whose flow ids are integers
  from 0 on have the same id only when they are the same key, so a line for one of them
  leaves the entry of every other one as it is.
\<close>

theorem store_entries:
  "(\<forall>p st l K. key_pair p l = Some K \<and> handler_of p l = Some HandleFinished
       \<longrightarrow> snd (parse p st l) = st(key_id K := None)) \<and>
   (\<forall>p st l K. key_pair p l = Some K \<and>
        (handler_of p l = Some HandleStarted \<or> handler_of p l = Some HandleFault)
       \<longrightarrow> dom (snd (parse p st l)) = insert (key_id K) (dom st)) \<and>
   (\<forall>p st l. handler_of p l = None \<longrightarrow> snd (parse p st l) = st) \<and>
   (\<forall>p st l K K'. key_pair p l = Some K' \<and> key_id K' \<noteq> key_id K
       \<longrightarrow> snd (parse p st l) (key_id K) = st (key_id K)) \<and>
   (\<forall>p st ls K. key_id K \<in> dom st \<and> key_id K \<notin> dom (snd (feed p st ls)) \<and>
        (\<forall>l\<in>set ls. \<forall>K'. key_pair p l = Some K' \<and> key_id K' = key_id K \<longrightarrow> K' = K)
       \<longrightarrow> (\<exists>l\<in>set ls. key_pair p l = Some K \<and> handler_of p l = Some HandleFinished)) \<and>
   (\<forall>n1 f1 n2 f2. 0 \<le> f1 \<and> 0 \<le> f2
       \<longrightarrow> (key_id (Str n1, Num f1) = key_id (Str n2, Num f2) \<longleftrightarrow> n1 = n2 \<and> f1 = f2)) \<and>
   (\<forall>p st l n1 f1 n2 f2. key_pair p l = Some (Str n2, Num f2) \<and> 0 \<le> f1 \<and> 0 \<le> f2 \<and>
        (n2, f2) \<noteq> (n1, f1)
       \<longrightarrow> snd (parse p st l) (key_id (Str n1, Num f1)) = st (key_id (Str n1, Num f1)))"
proof (intro conjI allI impI, goal_cases)
  case (1 p st l K)
  then show ?case using parse_finished_store [of p l "key_id K" st] by (simp add: key_of_pair)
next
  case (2 p st l K)
  then show ?case using parse_started_fault_dom [of p l "key_id K" st] by (simp add: key_of_pair)
next
  case (3 p st l)
  then show ?case using parse_no_handler_store [of p l st] by simp
next
  case (4 p st l K K')
  then show ?case using parse_other_key [of p l "key_id K" st] by (simp add: key_of_pair)
next
  case (5 p st ls K)
  then obtain l where l: "l \<in> set ls" "key_of p l = Some (key_id K)"
      "handler_of p l = Some HandleFinished"
    using feed_keeps_entry [of "key_id K" st p ls] by blast
  from l(2) obtain K' where K': "key_pair p l = Some K'" "key_id K' = key_id K"
    by (auto simp add: key_of_pair)
  with 5 l(1) have "K' = K" by blast
  with K' l show ?case by blast
next
  case (6 n1 f1 n2 f2)
  then show ?case using key_id_inject [of f1 f2 n1 n2] by simp
next
  case (7 p st l n1 f1 n2 f2)
  then have "key_id (Str n2, Num f2) \<noteq> key_id (Str n1, Num f1)"
    using key_id_inject [of f2 f1 n2 n1] by simp
  with 7 show ?case
    using parse_other_key [of p l "key_id (Str n1, Num f1)" st] by (simp add: key_of_pair)
qed

text \<open>
  C5 as stated fails. The test \<^verbatim>\<open>t\<close> in flow -3 and the test \<^verbatim>\<open>t-\<close> in flow 3 are two
  keys with the one id \<^verbatim>\<open>t--3\<close>: the entry that the Started line of the first stores is
  removed by the Finished line of the second, and no Finished line for the first key was
  processed.
\<close>

theorem entry_removed_by_other_key:
  "key_pair example_parser ''started t -3'' = Some (Str ''t'', Num (- 3)) \<and>
   key_pair example_parser ''finished t- 3'' = Some (Str ''t-'', Num 3) \<and>
   handler_of example_parser ''started t -3'' = Some HandleStarted \<and>
   handler_of example_parser ''finished t- 3'' = Some HandleFinished \<and>
   key_id (Str ''t'', Num (- 3)) = ''t--3'' \<and> key_id (Str ''t-'', Num 3) = ''t--3'' \<and>
   feed example_parser Map.empty [''started t -3''] =
     ([Inr (RObj started_minus)], [''t--3'' \<mapsto> started_minus]) \<and>
   snd (feed example_parser Map.empty [''started t -3'', ''finished t- 3'']) = Map.empty"
proof -
  have s: "show_int 3 = ''3''" "show_int (- 3) = ''-3''"
    by (simp_all add: show_int_def show_nat.simps digit_char_def)
  show ?thesis
    by (simp add: key_pair_def handler_of_def key_id_def example_parser_def pm_defs lookup_def
        field_def generateId_def s started_minus_def finished_dash_def)
qed






theorem store_entries_witness:
  "snd (parse example_parser [''t-1'' \<mapsto> started_t1] ''finished'') = Map.empty \<and>
   dom (snd (parse example_parser Map.empty ''started'')) = {''t-1''} \<and>
   dom (snd (parse example_parser [''t-1'' \<mapsto> started_t1] ''failed boom'')) = {''t-1''} \<and>
   snd (parse example_parser [''t-1'' \<mapsto> started_t1] ''Time: 1 ms'') = [''t-1'' \<mapsto> started_t1] \<and>
   snd (parse example_parser [''t-1'' \<mapsto> started_t1] ''finished 2'') ''t-1'' = Some started_t1 \<and>
   (\<exists>l\<in>set [''failed boom'', ''finished''].
      key_pair example_parser l = Some (Str ''t'', Num 1) \<and>
      handler_of example_parser l = Some HandleFinished) \<and>
   ''t-1'' \<notin> dom (snd (feed example_parser [''t-1'' \<mapsto> started_t1] [''failed boom'', ''finished''])) \<and>
   key_id (Str ''t'', Num 1) \<noteq> key_id (Str ''t'', Num 2) \<and>
   snd (parse example_parser Map.empty ''finished 2'') (key_id (Str ''t'', Num 1)) = None"
proof -
  let ?K = "(Str ''t'', Num 1)"
  let ?st = "[''t-1'' \<mapsto> started_t1]"
  have k: "key_pair example_parser ''finished'' = Some ?K"
      "key_pair example_parser ''started'' = Some ?K"
      "key_pair example_parser ''failed boom'' = Some ?K"
      "key_pair example_parser ''finished 2'' = Some (Str ''t'', Num 2)"
    by (simp_all add: key_pair_def example_parser_def isTestResult_def field_def
        finished_t1_def started_t1_def failed_t1_def finished_t2_def)
  have i: "key_id ?K = ''t-1''" "key_id (Str ''t'', Num 2) = ''t-2''"
    by (simp_all add: key_id_def generateId_def field_def show_int_1 show_int_2)
  have h: "handler_of example_parser ''finished'' = Some HandleFinished"
      "handler_of example_parser ''started'' = Some HandleStarted"
      "handler_of example_parser ''failed boom'' = Some HandleFault"
      "handler_of example_parser ''Time: 1 ms'' = None"
    by (simp_all add: handler_of_def example_parser_def isTestResult_def lookup_def field_def
        finished_t1_def started_t1_def failed_t1_def)
  have f: "snd (feed example_parser ?st [''failed boom'', ''finished'']) = Map.empty"
    by (simp add: example_parser_def pm_defs generateId_flow_1 started_t1_def failed_t1_def
        finished_t1_def)
  have 1: "snd (parse example_parser ?st ''finished'') = Map.empty"
    using store_entries [THEN conjunct1, rule_format, where p = example_parser
        and l = "''finished''" and K = ?K and st = ?st] k h i
    by simp
  have 2: "dom (snd (parse example_parser Map.empty ''started'')) = {''t-1''}"
    using store_entries [THEN conjunct2, THEN conjunct1, rule_format, where p = example_parser
        and l = "''started''" and K = ?K and st = Map.empty] k h i
    by simp
  have 3: "dom (snd (parse example_parser ?st ''failed boom'')) = {''t-1''}"
    using store_entries [THEN conjunct2, THEN conjunct1, rule_format, where p = example_parser
        and l = "''failed boom''" and K = ?K and st = ?st] k h i
    by simp
  have 4: "snd (parse example_parser ?st ''Time: 1 ms'') = ?st"
    using store_entries [THEN conjunct2, THEN conjunct2, THEN conjunct1, rule_format,
        where p = example_parser and l = "''Time: 1 ms''" and st = ?st] h
    by simp
  have 5: "snd (parse example_parser ?st ''finished 2'') ''t-1'' = Some started_t1"
    using store_entries [THEN conjunct2, THEN conjunct2, THEN conjunct2, THEN conjunct1,
        rule_format, where p = example_parser and l = "''finished 2''"
        and K' = "(Str ''t'', Num 2)" and K = ?K and st = ?st] k i
    by simp
  have 6: "\<exists>l\<in>set [''failed boom'', ''finished''].
      key_pair example_parser l = Some ?K \<and> handler_of example_parser l = Some HandleFinished"
    using store_entries [THEN conjunct2, THEN conjunct2, THEN conjunct2, THEN conjunct2,
        THEN conjunct1, rule_format, where p = example_parser and K = ?K and st = ?st
        and ls = "[''failed boom'', ''finished'']"] k i f
    by simp
  have 7: "key_id ?K \<noteq> key_id (Str ''t'', Num 2)"
    using store_entries [THEN conjunct2, THEN conjunct2, THEN conjunct2, THEN conjunct2,
        THEN conjunct2, THEN conjunct1, rule_format, where ?n1.0 = "''t''" and ?f1.0 = 1
        and ?n2.0 = "''t''" and ?f2.0 = 2]
    by simp
  have 8: "snd (parse example_parser Map.empty ''finished 2'') (key_id ?K) = None"
    using store_entries [THEN conjunct2, THEN conjunct2, THEN conjunct2, THEN conjunct2,
        THEN conjunct2, THEN conjunct2, rule_format, where p = example_parser
        and l = "''finished 2''" and ?n1.0 = "''t''" and ?f1.0 = 1 and ?n2.0 = "''t''"
        and ?f2.0 = 2 and st = Map.empty] k
    by simp
  from 1 2 3 4 5 6 7 8 f show ?thesis by simp
qed



subsection \<open>Parser and TestResultSummaryParser\<close>

lemmas class_defs = is_space_def is_word_def is_digit_def is_line_terminator_def
  LF_def CR_def DQUOTE_def BACKSLASH_def

lemmas summary_defs = summary_match_def name_count_def count_name_def optional_end_def
  normalize_name_def to_lower_def parseInt_def decimal_def digit_val_def

lemma matchAll_terse:
  "matchAll ''OK (5 tests, 10 assertions)'' = [(''tests'', ''5''), (''assertions'', ''10'')]"
  by (simp add: matchAll.simps summary_defs class_defs)

lemma matchAll_verbose:
  "matchAll ''Tests: 5, Assertions: 10, Failures: 2, Skipped: 1.'' =
     [(''Tests'', ''5''), (''Assertions'', ''10''), (''Failures'', ''2''), (''Skipped'', ''1'')]"
  by (simp add: matchAll.simps summary_defs class_defs)

lemma summary_terse:
  "summary_parse ''OK (5 tests, 10 assertions)'' =
     Some [''kind'' \<mapsto> Str ''testResultSummary'', ''text'' \<mapsto> Str ''OK (5 tests, 10 assertions)'',
           ''tests'' \<mapsto> Num 5, ''assertions'' \<mapsto> Num 10]"
  by (simp add: summary_parse_def matchAll_terse summary_defs class_defs)

lemma summary_verbose:
  "summary_parse ''Tests: 5, Assertions: 10, Failures: 2, Skipped: 1.'' =
     Some [''kind'' \<mapsto> Str ''testResultSummary'',
           ''text'' \<mapsto> Str ''Tests: 5, Assertions: 10, Failures: 2, Skipped: 1.'',
           ''tests'' \<mapsto> Num 5, ''assertions'' \<mapsto> Num 10, ''failures'' \<mapsto> Num 2,
           ''skipped'' \<mapsto> Num 1]"
  by (simp add: summary_parse_def matchAll_verbose summary_defs class_defs)

lemma location_hint_example:
  "argv ''locationHint'' = Some (Str (''php_qn://src/FileTest.php::Ns'' @ [BACKSLASH] @ ''FileTest::test_foo'')) \<Longrightarrow>
   parseLocationHint argv =
     Inr [''id'' \<mapsto> Str (''Ns'' @ [BACKSLASH] @ ''FileTest::test_foo''),
          ''file'' \<mapsto> Str ''src/FileTest.php'',
          ''testId'' \<mapsto> Str (''Ns'' @ [BACKSLASH] @ ''FileTest::test_foo'')]"
  by (simp add: parseLocationHint_def field_def strip_scheme_def dataset_match_def dataset_head_def
      drop_space_def drop_text_def drop_marker_def class_defs Let_def)

lemma takeWhile_all: "list_all P (takeWhile P xs)"
  by (induction xs) simp_all

lemma dropWhile_stops: "\<not> starts_with P (dropWhile P xs)"
  by (induction xs) (simp_all add: starts_with_def)

lemma name_count_shape:
  assumes "name_count s = Some ((name, count), rest)"
  shows "written_at s name count \<and> suffix rest s"
proof -
  obtain c sp z where d: "dropWhile is_word s = c # sp # z"
    and p: "name = takeWhile is_word s" "c = CHR '':''" "is_space sp"
      "count = takeWhile is_digit z" "rest = dropWhile is_digit z" "name \<noteq> []" "count \<noteq> []"
    using assms by (auto simp add: name_count_def Let_def split: list.splits if_splits)
  have "s = takeWhile is_word s @ dropWhile is_word s" by simp
  also have "\<dots> = name @ CHR '':'' # sp # (takeWhile is_digit z @ dropWhile is_digit z)"
    using d p by simp
  finally have s: "s = name @ CHR '':'' # sp # count @ rest" using p by simp
  have a: "list_all is_word name" "list_all is_digit count" "\<not> starts_with is_digit rest"
    using p takeWhile_all [of is_word s] takeWhile_all [of is_digit z]
      dropWhile_stops [of is_digit z] by simp_all
  have "drop_text name s = Some (CHR '':'' # sp # count @ rest)"
    by (subst s) (simp add: drop_text_def)
  with a p(3,6,7) have "written_at s name count"
    by (simp add: written_at_def)
  moreover have "suffix rest s"
    unfolding suffix_def by (subst s, intro exI [of _ "name @ CHR '':'' # sp # count"]) simp
  ultimately show ?thesis by simp
qed

lemma count_name_shape:
  assumes "count_name s = Some ((name, count), rest)"
  shows "written_at s name count \<and> suffix rest s"
proof -
  obtain sp z where d: "dropWhile is_digit s = sp # z"
    and p: "count = takeWhile is_digit s" "is_space sp"
      "name = takeWhile is_word z" "rest = dropWhile is_word z" "name \<noteq> []" "count \<noteq> []"
    using assms by (auto simp add: count_name_def Let_def split: list.splits if_splits)
  have "s = takeWhile is_digit s @ dropWhile is_digit s" by simp
  also have "\<dots> = count @ sp # (takeWhile is_word z @ dropWhile is_word z)"
    using d p by simp
  finally have s: "s = count @ sp # name @ rest" using p by simp
  have a: "list_all is_word name" "list_all is_digit count" "\<not> starts_with is_word rest"
    using p takeWhile_all [of is_word z] takeWhile_all [of is_digit s]
      dropWhile_stops [of is_word z] by simp_all
  have "drop_text count s = Some (sp # name @ rest)"
    by (subst s) (simp add: drop_text_def)
  with a p(2,5,6) have "written_at s name count"
    by (simp add: written_at_def)
  moreover have "suffix rest s"
    unfolding suffix_def by (subst s, intro exI [of _ "count @ [sp] @ name"]) simp
  ultimately show ?thesis by simp
qed

lemma suffix_optional_end: "suffix (optional_end r) r"
  by (auto simp add: optional_end_def suffix_def split: list.splits)

lemma summary_match_shape:
  assumes "summary_match s = Some ((name, count), rest)"
  shows "written_at s name count \<and> suffix rest s"
proof -
  consider r where "name_count s = Some ((name, count), r)" "rest = optional_end r"
    | r where "count_name s = Some ((name, count), r)" "rest = optional_end r"
    using assms by (auto simp add: summary_match_def split: option.splits)
  then show ?thesis
  proof cases
    case 1
    then show ?thesis
      using name_count_shape [of s name count r] suffix_optional_end [of r] suffix_order.trans
      by blast
  next
    case 2
    then show ?thesis
      using count_name_shape [of s name count r] suffix_optional_end [of r] suffix_order.trans
      by blast
  qed
qed

lemma written_in_suffix:
  "suffix t s \<Longrightarrow> written_in t name count \<Longrightarrow> written_in s name count"
proof (induction s)
  case Nil
  then show ?case by simp
next
  case (Cons c cs)
  from Cons.prems(1) have "t = c # cs \<or> suffix t cs" by (simp add: suffix_Cons)
  then show ?case using Cons by auto
qed

lemma written_in_digits:
  "written_in s name count \<Longrightarrow> count \<noteq> [] \<and> list_all is_digit count"
  by (induction s) (auto simp add: written_at_def)

lemma matchAll_written:
  "(name, count) \<in> set (matchAll s) \<Longrightarrow> written_in s name count"
proof (induction s arbitrary: name count rule: matchAll.induct)
  case 1
  then show ?case by (simp add: matchAll.simps)
next
  case (2 c cs)
  show ?case
  proof (cases "summary_match (c # cs)")
    case None
    with 2 have "written_in cs name count" by (simp add: matchAll.simps)
    then show ?thesis by simp
  next
    case (Some a)
    obtain n k rest where a: "a = ((n, k), rest)" by (metis prod.collapse)
    from summary_match_shape [of "c # cs" n k rest] Some a
    have sh: "suffix rest (c # cs)" "written_at (c # cs) n k"
      by simp_all
    from 2(3) Some a have "(name, count) = (n, k) \<or> (name, count) \<in> set (matchAll rest)"
      by (simp add: matchAll.simps)
    then show ?thesis
    proof
      assume "(name, count) = (n, k)"
      with sh show ?thesis by simp
    next
      assume "(name, count) \<in> set (matchAll rest)"
      then have "written_in rest name count"
        using 2(2) [OF Some, of "(n, k)" rest name count] a by simp
      then show ?thesis
        using sh(1) written_in_suffix by blast
    qed
  qed
qed

lemma fold_fields:
  assumes "fold (\<lambda>(name, count) result.
                   case (result, parseInt count) of
                     (Some r, Some n) \<Rightarrow> Some (r(normalize_name name \<mapsto> Num n))
                   | _ \<Rightarrow> None) ms acc = Some rec"
  shows "\<exists>base. acc = Some base \<and>
     (\<forall>k v. rec k = Some v \<longrightarrow> base k = Some v \<or>
        (\<exists>name count n. (name, count) \<in> set ms \<and> k = normalize_name name \<and>
           parseInt count = Some n \<and> v = Num n))"
  using assms
proof (induction ms arbitrary: acc)
  case Nil
  then show ?case by simp
next
  case (Cons m ms)
  obtain a c where m: "m = (a, c)" by (cases m)
  define acc' where "acc' = (case (acc, parseInt c) of
      (Some r, Some n) \<Rightarrow> Some (r(normalize_name a \<mapsto> Num n)) | _ \<Rightarrow> None)"
  from Cons.prems m have "fold (\<lambda>(name, count) result.
                   case (result, parseInt count) of
                     (Some r, Some n) \<Rightarrow> Some (r(normalize_name name \<mapsto> Num n))
                   | _ \<Rightarrow> None) ms acc' = Some rec"
    by (simp add: acc'_def)
  from Cons.IH [OF this] obtain base' where b': "acc' = Some base'"
    and f: "\<And>k v. rec k = Some v \<Longrightarrow> base' k = Some v \<or>
        (\<exists>name count n. (name, count) \<in> set ms \<and> k = normalize_name name \<and>
           parseInt count = Some n \<and> v = Num n)"
    by blast
  from b' obtain base x where b: "acc = Some base" "parseInt c = Some x"
    "base' = base(normalize_name a \<mapsto> Num x)"
    by (auto simp add: acc'_def split: option.splits)
  have "base k = Some v \<or>
        (\<exists>name count n. (name, count) \<in> set (m # ms) \<and> k = normalize_name name \<and>
           parseInt count = Some n \<and> v = Num n)" if "rec k = Some v" for k v
  proof -
    from f [OF that] show ?thesis
    proof
      assume "base' k = Some v"
      then show ?thesis
        using b m by (cases "k = normalize_name a") auto
    next
      assume "\<exists>name count n. (name, count) \<in> set ms \<and> k = normalize_name name \<and>
           parseInt count = Some n \<and> v = Num n"
      then show ?thesis by auto
    qed
  qed
  with b(1) show ?case by blast
qed

lemma summary_fields:
  assumes "summary_parse t = Some rec" "rec k = Some v"
  shows "k = ''kind'' \<or> k = ''text'' \<or>
     (\<exists>name count n. written_in t name count \<and> k = normalize_name name \<and>
        parseInt count = Some n \<and> v = Num n)"
proof -
  from fold_fields [OF assms(1) [unfolded summary_parse_def]] assms(2)
  have "[''kind'' \<mapsto> Str ''testResultSummary'', ''text'' \<mapsto> Str t] k = Some v \<or>
      (\<exists>name count n. (name, count) \<in> set (matchAll t) \<and> k = normalize_name name \<and>
         parseInt count = Some n \<and> v = Num n)"
    by blast
  then show ?thesis
  proof
    assume "[''kind'' \<mapsto> Str ''testResultSummary'', ''text'' \<mapsto> Str t] k = Some v"
    then show ?thesis by (auto split: if_splits)
  next
    assume "\<exists>name count n. (name, count) \<in> set (matchAll t) \<and> k = normalize_name name \<and>
       parseInt count = Some n \<and> v = Num n"
    then show ?thesis using matchAll_written by blast
  qed
qed

lemma fold_defined:
  assumes "\<forall>m\<in>set ms. parseInt (snd m) \<noteq> None"
  shows "fold (\<lambda>(name, count) result.
                   case (result, parseInt count) of
                     (Some r, Some n) \<Rightarrow> Some (r(normalize_name name \<mapsto> Num n))
                   | _ \<Rightarrow> None) ms (Some base) \<noteq> None"
  using assms
proof (induction ms arbitrary: base)
  case Nil
  then show ?case by simp
next
  case (Cons m ms)
  obtain a c where m: "m = (a, c)" by (cases m)
  with Cons.prems obtain x where x: "parseInt c = Some x" by auto
  from Cons.IH [of "base(normalize_name a \<mapsto> Num x)"] Cons.prems m x show ?case
    by (simp del: fun_upd_apply)
qed

lemma summary_defined:
  assumes "\<forall>m\<in>set (matchAll t). decimal (snd m) \<le> 2 ^ 53"
  shows "summary_parse t \<noteq> None"
proof -
  have "parseInt (snd m) \<noteq> None" if "m \<in> set (matchAll t)" for m
  proof -
    obtain name count where m: "m = (name, count)" by (cases m)
    with that have "written_in t name count" using matchAll_written by simp
    then have "count \<noteq> []" "list_all is_digit count"
      using written_in_digits by blast+
    with assms that m show ?thesis by (auto simp add: parseInt_def)
  qed
  then show ?thesis
    unfolding summary_parse_def using fold_defined by blast
qed

lemma strip_at_first_marker:
  "first_marker (p @ sfx) = Some (length p) \<Longrightarrow> dataset_match sfx \<Longrightarrow> strip_dataset (p @ sfx) = p"
proof (induction p)
  case Nil
  then obtain c cs where "sfx = c # cs"
    by (cases sfx) (auto simp add: dataset_match_def dataset_head_def drop_space_def)
  with Nil show ?case by simp
next
  case (Cons a p)
  from Cons.prems(1) have h: "dataset_head (a # p @ sfx) = None"
    and f: "first_marker (p @ sfx) = Some (length p)"
    by (auto split: if_splits)
  from h have "\<not> dataset_match (a # p @ sfx)"
    by (simp add: dataset_match_def)
  with Cons.IH [OF f Cons.prems(2)] show ?case by simp
qed

lemma dataset_match_numbered:
  "n \<noteq> [] \<Longrightarrow> list_all (\<lambda>c. \<not> is_line_terminator c) n \<Longrightarrow>
     dataset_match ('' with data set #'' @ n)"
  by (simp add: dataset_match_def dataset_head_def drop_space_def drop_text_def drop_marker_def
      is_space_def)

lemma dataset_match_named:
  "list_all (\<lambda>c. \<not> is_line_terminator c) n \<Longrightarrow>
     dataset_match ('' with data set '' @ [DQUOTE] @ n @ [DQUOTE])"
  by (simp add: dataset_match_def dataset_head_def drop_space_def drop_text_def drop_marker_def
      is_space_def is_line_terminator_def DQUOTE_def LF_def CR_def)

lemma parseLocationHint_testId:
  "parseLocationHint argv = Inr res \<Longrightarrow> res ''id'' = Some (Str i) \<Longrightarrow>
     res ''testId'' = Some (Str (strip_dataset i))"
  by (auto simp add: parseLocationHint_def Let_def split: if_splits val.splits list.splits)

text \<open>
  C7, as amended. A record whose \<^verbatim>\<open>locationHint\<close> is
  \<^verbatim>\<open>php_qn://src/FileTest.php::Ns\FileTest::test_foo\<close> gives the file
  \<^verbatim>\<open>src/FileTest.php\<close>, the id \<^verbatim>\<open>Ns\FileTest::test_foo\<close> and a testId equal to the id.
  And when the id is \<open>p\<close> followed by \<^verbatim>\<open> with data set #N\<close> (\<open>N\<close> not empty) or by
  \<^verbatim>\<open> with data set "name"\<close>, where \<open>N\<close> or the name has no line break and the suffix is
  the first place in the id where a data-set marker (white space, \<^verbatim>\<open>with\<close>, white space,
  \<^verbatim>\<open>data\<close>, white space, \<^verbatim>\<open>set\<close>, white space, \<^verbatim>\<open>#\<close> or a quote) starts, the testId is
  \<open>p\<close>, and the id keeps the suffix.
\<close>

theorem location_hint:
  "(\<forall>argv. argv ''locationHint'' =
        Some (Str (''php_qn://src/FileTest.php::Ns'' @ [BACKSLASH] @ ''FileTest::test_foo''))
      \<longrightarrow> parseLocationHint argv =
            Inr [''id'' \<mapsto> Str (''Ns'' @ [BACKSLASH] @ ''FileTest::test_foo''),
                 ''file'' \<mapsto> Str ''src/FileTest.php'',
                 ''testId'' \<mapsto> Str (''Ns'' @ [BACKSLASH] @ ''FileTest::test_foo'')]) \<and>
   (\<forall>argv res p sfx n.
      parseLocationHint argv = Inr res \<and> res ''id'' = Some (Str (p @ sfx)) \<and>
      (sfx = '' with data set #'' @ n \<and> n \<noteq> [] \<or>
       sfx = '' with data set '' @ [DQUOTE] @ n @ [DQUOTE]) \<and>
      list_all (\<lambda>c. \<not> is_line_terminator c) n \<and>
      first_marker (p @ sfx) = Some (length p)
      \<longrightarrow> res ''testId'' = Some (Str p) \<and> res ''id'' = Some (Str (p @ sfx)))"
proof (intro conjI allI impI, goal_cases)
  case (1 argv)
  then show ?case by (rule location_hint_example)
next
  case (2 argv res p sfx n)
  then have "dataset_match sfx"
    using dataset_match_numbered [of n] dataset_match_named [of n] by auto
  then have "strip_dataset (p @ sfx) = p"
    using 2 strip_at_first_marker [of p sfx] by simp
  then show ?case
    using 2 parseLocationHint_testId [of argv res "p @ sfx"] by simp
next
  case (3 argv res p sfx n)
  then show ?case by simp
qed

lemmas hint_defs = parseLocationHint_def field_def strip_scheme_def dataset_match_def
  dataset_head_def drop_space_def drop_text_def drop_marker_def class_defs Let_def hint_argv_def

theorem location_hint_witness:
  "field (hint_argv (''php_qn://src/FileTest.php::Ns'' @ [BACKSLASH] @ ''FileTest::test_foo'')) ''locationHint'' =
     Str (''php_qn://src/FileTest.php::Ns'' @ [BACKSLASH] @ ''FileTest::test_foo'') \<and>
   (\<exists>res. parseLocationHint (hint_argv ''php_qn://a.php::T::t with data set #3'') = Inr res \<and>
      res ''id'' = Some (Str ''T::t with data set #3'') \<and> res ''testId'' = Some (Str ''T::t''))"
proof -
  let ?argv = "hint_argv ''php_qn://a.php::T::t with data set #3''"
  obtain res where r: "parseLocationHint ?argv = Inr res"
      "res ''id'' = Some (Str (''T::t'' @ '' with data set #3''))"
    by (simp add: hint_defs)
  have f: "first_marker (''T::t'' @ '' with data set #3'') = Some (length ''T::t'')"
    by (simp add: dataset_head_def drop_space_def drop_text_def drop_marker_def class_defs)
  have "res ''testId'' = Some (Str ''T::t'')"
    using r f location_hint [THEN conjunct2, rule_format, of ?argv res "''T::t''"
        "'' with data set #3''" "''3''"]
    by (simp add: class_defs)
  with r show ?thesis
    using location_hint [THEN conjunct1, rule_format,
        of "hint_argv (''php_qn://src/FileTest.php::Ns'' @ [BACKSLASH] @ ''FileTest::test_foo'')"]
    by (simp add: hint_argv_def field_def)
qed

text \<open>
  C7 as stated fails for a data-set name with a line break in it (nothing is removed),
  and for an id with an earlier data-set marker (more than the last suffix is removed).
\<close>

theorem dataset_suffix_not_removed:
  "(\<exists>res. parseLocationHint
        (hint_argv (''php_qn://a.php::T::t with data set '' @ [DQUOTE] @ ''a'' @ [LF] @ ''b'' @ [DQUOTE])) = Inr res \<and>
      res ''id'' = Some (Str (''T::t'' @ '' with data set '' @ [DQUOTE] @ (''a'' @ [LF] @ ''b'') @ [DQUOTE])) \<and>
      res ''testId'' = res ''id'' \<and> res ''testId'' \<noteq> Some (Str ''T::t'')) \<and>
   (\<exists>res. parseLocationHint (hint_argv ''php_qn://a.php::T::t with data set #1 with data set #2'') = Inr res \<and>
      res ''id'' = Some (Str (''T::t with data set #1'' @ '' with data set #2'')) \<and>
      res ''testId'' = Some (Str ''T::t'') \<and> res ''testId'' \<noteq> Some (Str ''T::t with data set #1''))"
  by (simp add: hint_defs)


lemma multi_fault:
  assumes "p l1 = Inr (Some F1)" "p l2 = Inr (Some F2)" "p l3 = Inr (Some E)"
    and "isTestResult (Some F1)" "isTestResult (Some F2)" "isTestResult (Some E)"
    and "generateId F1 = k" "generateId F2 = k" "generateId E = k"
    and "st k = None \<or> (\<exists>S. st k = Some S \<and> field S ''kind'' = Str ''testStarted'')"
    and "F1 ''event'' = Some (Str ''testFailed'')" "F1 ''kind'' = Some (Str ''testFailed'')"
      "F1 ''message'' = Some (Str a)" "F1 ''details'' = Some (Arr d1)"
    and "F2 ''event'' = Some (Str ''testFailed'')"
      "F2 ''message'' = Some (Str b)" "b \<noteq> []" "F2 ''details'' = Some (Arr d2)"
    and "E ''event'' = Some (Str ''testFinished'')" "E ''message'' = None" "E ''details'' = None"
  shows "\<exists>T. feed p st [l1, l2, l3] = ([Inr RUndefined, Inr RUndefined, Inr (RObj T)], st(k := None)) \<and>
      field T ''event'' = Str ''testFailed'' \<and> field T ''kind'' = Str ''testFailed'' \<and>
      field T ''message'' = Str (a @ [LF, LF] @ b) \<and> field T ''details'' = Arr (d1 @ d2)"
proof -
  have p1: "parse p st l1 = handleFault st F1"
    using assms by (simp add: parse_def call_lookup_def lookup_def field_def)
  have p2: "\<And>st. parse p st l2 = handleFault st F2"
    using assms by (simp add: parse_def call_lookup_def lookup_def field_def)
  have p3: "\<And>st. parse p st l3 = handleFinished st E"
    using assms by (simp add: parse_def call_lookup_def lookup_def field_def)
  obtain P where s1: "handleFault st F1 = (Inr RUndefined, st(k \<mapsto> P))"
    and P: "P ''kind'' = Some (Str ''testFailed'')" "P ''event'' = Some (Str ''testFailed'')"
      "P ''message'' = Some (Str a)" "P ''details'' = Some (Arr d1)"
    using assms(7,10,11,12,13,14)
    by (auto simp add: handleFault_def Let_def field_def map_add_def split: option.splits)
  have s2: "handleFault (st(k \<mapsto> P)) F2 =
      (Inr RUndefined, st(k \<mapsto> P(''message'' \<mapsto> Str (a @ [LF, LF] @ b), ''details'' \<mapsto> Arr (d1 @ d2))))"
    using assms(8,16,17,18) P
    by (simp add: handleFault_def Let_def field_def)
  show ?thesis
    using assms(9,19,20,21) P
    by (simp add: p1 p2 p3 s1 s2 handleFinished_def Let_def field_def isFault_def map_add_def)
qed

lemma parseDetails_order:
  assumes "argv ''message'' = Some (Str msg)" "argv ''details'' = Some (Str det)"
    and "parseFileAndLine_string msg = Some a" "parseFileAndLine_string det = Some b"
  shows "\<exists>res. parseDetails argv = Some (Inr res) \<and>
     res ''details'' = Some (Arr (entries a @ entries b))"
  using assms by (simp add: parseDetails_def field_def Let_def dom_def)

lemma parseDetails_example:
  "\<exists>res. parseDetails failed_argv = Some (Inr res) \<and>
     res ''details'' = Some (Arr [Detail ''/a.php'' 1, Detail ''/b.php'' 2])"
proof -
  have "parseFileAndLine_string (''A'' @ [LF] @ ''/a.php:1'') = Some [(''/a.php'', 1)]"
    "parseFileAndLine_string ('' /b.php:2'' @ [LF]) = Some [(''/b.php'', 2)]"
    by (simp_all add: parseFileAndLine_string_def trim_def filePattern_def
        last_colon_def List.map_filter_simps class_defs Let_def parseInt_def decimal_def
        digit_val_def)
  then show ?thesis
    using parseDetails_order [of failed_argv "''A'' @ [LF] @ ''/a.php:1''" "'' /b.php:2'' @ [LF]"
        "[(''/a.php'', 1)]" "[(''/b.php'', 2)]"]
    by (simp add: failed_argv_def entries_def)
qed

text \<open>
  C4. The claim is for every key, and \<^verbatim>\<open>handleFault\<close> does what it says where the entry
  of the key is absent or a record of kind \<^verbatim>\<open>testStarted\<close> when the first fault arrives
  (\<open>multi_fault\<close>). It tells the placeholder from an earlier fault by
  \<^verbatim>\<open>prevData.kind === TeamcityEvent.testStarted\<close>, which a record of kind
  \<^verbatim>\<open>testSuiteStarted\<close> does not pass, although \<^verbatim>\<open>handleStarted\<close> stores both alike. So
  after a SuiteStarted line for the key, the first Failed line is added to the stored
  placeholder as if that were a fault: the message becomes \<^verbatim>\<open>undefined\<close>, an empty line
  and \<^verbatim>\<open>A\<close>, and \<^verbatim>\<open>push\<close> throws, the placeholder having no \<^verbatim>\<open>details\<close>. The second
  Failed line throws in the same way, and the terminal record has the message
  \<^verbatim>\<open>undefined\<close>, \<^verbatim>\<open>A\<close>, \<^verbatim>\<open>B\<close> with empty lines between, no \<^verbatim>\<open>details\<close>, and the event of
  the Finished line.
\<close>

theorem fault_after_suite_started:
  "\<exists>T. feed example_parser Map.empty [''suite started'', ''failed A'', ''failed B'', ''finished''] =
          ([Inr (RObj suite_started_t1), Inl TypeError, Inl TypeError, Inr (RObj T)], Map.empty) \<and>
        field T ''message'' = Str (''undefined'' @ [LF, LF] @ ''A'' @ [LF, LF] @ ''B'') \<and>
        T ''details'' = None \<and> field T ''event'' = Str ''testFinished''"
  by (simp add: example_parser_def pm_defs generateId_def show_int_1 suite_started_t1_def
      failed_t1_def finished_t1_def)

text \<open>
  C8. \<^verbatim>\<open>TestResultSummaryParser.parse\<close> turns \<^verbatim>\<open>OK (5 tests, 10 assertions)\<close> into a
  record with tests 5 and assertions 10 and no key \<^verbatim>\<open>errors\<close> or \<^verbatim>\<open>failures\<close>, and
  \<^verbatim>\<open>Tests: 5, Assertions: 10, Failures: 2, Skipped: 1.\<close> into a record with tests 5,
  assertions 10, failures 2 and skipped 1 (each with \<^verbatim>\<open>kind\<close> and \<^verbatim>\<open>text\<close>). For every
  line whose counts are \<open>2 ^ 53\<close> at most there is a record, and a key of the record
  other than \<^verbatim>\<open>kind\<close> and \<^verbatim>\<open>text\<close> is the normalized form of a name that is written in
  the line next to a count, a non-empty run of digits, and its value is the number that
  the count writes.
\<close>

theorem summary_partiality:
  "(\<exists>rec. summary_parse ''OK (5 tests, 10 assertions)'' = Some rec \<and>
      rec = [''kind'' \<mapsto> Str ''testResultSummary'', ''text'' \<mapsto> Str ''OK (5 tests, 10 assertions)'',
             ''tests'' \<mapsto> Num 5, ''assertions'' \<mapsto> Num 10] \<and>
      ''errors'' \<notin> dom rec \<and> ''failures'' \<notin> dom rec) \<and>
   summary_parse ''Tests: 5, Assertions: 10, Failures: 2, Skipped: 1.'' =
     Some [''kind'' \<mapsto> Str ''testResultSummary'',
           ''text'' \<mapsto> Str ''Tests: 5, Assertions: 10, Failures: 2, Skipped: 1.'',
           ''tests'' \<mapsto> Num 5, ''assertions'' \<mapsto> Num 10, ''failures'' \<mapsto> Num 2,
           ''skipped'' \<mapsto> Num 1] \<and>
   (\<forall>t. (\<forall>m\<in>set (matchAll t). decimal (snd m) \<le> 2 ^ 53) \<longrightarrow> summary_parse t \<noteq> None) \<and>
   (\<forall>t rec k v. summary_parse t = Some rec \<and> rec k = Some v
      \<longrightarrow> k = ''kind'' \<or> k = ''text'' \<or>
          (\<exists>name count n. written_in t name count \<and> k = normalize_name name \<and>
             parseInt count = Some n \<and> v = Num n))"
proof (intro conjI allI impI, goal_cases)
  case 1
  show ?case by (simp add: summary_terse)
next
  case 2
  show ?case by (rule summary_verbose)
next
  case (3 t)
  then show ?case by (rule summary_defined)
next
  case (4 t rec k v)
  then show ?case using summary_fields [of t rec k v] by simp
qed

theorem summary_partiality_witness:
  "summary_parse ''OK (5 tests, 10 assertions)'' \<noteq> None \<and>
   (\<exists>name count n. written_in ''OK (5 tests, 10 assertions)'' name count \<and>
      ''tests'' = normalize_name name \<and> parseInt count = Some n \<and> Num 5 = Num n)"
proof -
  let ?t = "''OK (5 tests, 10 assertions)''"
  let ?rec = "[''kind'' \<mapsto> Str ''testResultSummary'', ''text'' \<mapsto> Str ?t,
               ''tests'' \<mapsto> Num 5, ''assertions'' \<mapsto> Num 10]"
  have m: "\<forall>m\<in>set (matchAll ?t). decimal (snd m) \<le> 2 ^ 53"
    by (simp add: matchAll_terse decimal_def digit_val_def)
  have t: "summary_parse ?t = Some ?rec"
    using summary_partiality [THEN conjunct1] by simp
  have "summary_parse ?t \<noteq> None"
    using m summary_partiality [THEN conjunct2, THEN conjunct2, THEN conjunct1, rule_format,
        where t = ?t]
    by simp
  moreover have "\<exists>name count n. written_in ?t name count \<and>
      ''tests'' = normalize_name name \<and> parseInt count = Some n \<and> Num 5 = Num n"
    using t summary_partiality [THEN conjunct2, THEN conjunct2, THEN conjunct2, rule_format,
        where t = ?t and rec = ?rec and k = "''tests''" and v = "Num 5"]
    by simp
  ultimately show ?thesis by simp
qed

end
